theory Spec2Isabelle
  imports Main "HOL-Library.Char_ord" "HOL-Library.List_Lexorder" "HOL-Library.AList"
    "HOL-Library.Multiset" "HOL-Library.Log_Nat" "HOL-Library.Product_Lexorder"
begin

section \<open>JavaScript values and strings\<close>

text \<open>
  A JavaScript string is a sequence of UTF-16 code units. The model covers the strings whose
  code units are below 256, one \<^typ>\<open>char\<close> per code unit. Every character that the
  version grammar accepts is ASCII, so a string with a larger code unit is only ever
  rejected by the parser, as a string here that holds a non-ASCII character is.

  \<open>TypeError\<close> is the only exception the modelled code can raise.
\<close>

datatype error = TypeError

text \<open>
  A value of a parsed JSON document. An object is the list of its entries in the order
  \<open>Object.entries\<close> enumerates them; an array enumerates its indices as keys. The payload of
  a number plays no role in the code below (only its type does).
\<close>

datatype json =
    JNull
  | JBool bool
  | JNum int
  | JStr string
  | JArr "json list"
  | JObj "(string \<times> json) list"

definition is_digit :: "char \<Rightarrow> bool" where
  "is_digit c = (48 \<le> (of_char c :: nat) \<and> (of_char c :: nat) \<le> 57)"

definition is_letter :: "char \<Rightarrow> bool" where
  "is_letter c = ((65 \<le> (of_char c :: nat) \<and> (of_char c :: nat) \<le> 90) \<or>
                  (97 \<le> (of_char c :: nat) \<and> (of_char c :: nat) \<le> 122))"

text \<open>The character class \<open>[a-zA-Z0-9-]\<close> (\<open>LETTERDASHNUMBER\<close> in semver's \<open>re.js\<close>).\<close>

definition letterdashnumber :: "char \<Rightarrow> bool" where
  "letterdashnumber c = (is_letter c \<or> is_digit c \<or> c = CHR ''-'')"

text \<open>
  The code units below 256 that \<open>String.prototype.trim\<close> removes: tab, line feed,
  vertical tab, form feed, carriage return, space and the no-break space.
\<close>

definition js_whitespace :: "char \<Rightarrow> bool" where
  "js_whitespace c = ((of_char c :: nat) \<in> {9, 10, 11, 12, 13, 32, 160})"

definition trim :: "string \<Rightarrow> string" where
  "trim s = rev (dropWhile js_whitespace (rev (dropWhile js_whitespace s)))"

text \<open>\<open>s.split(c)\<close> for a one-character separator: never the empty list.\<close>

fun split_on :: "char \<Rightarrow> string \<Rightarrow> string list" where
  "split_on c [] = [[]]"
| "split_on c (x # xs) =
     (if x = c then [] # split_on c xs
      else (case split_on c xs of [] \<Rightarrow> [[x]] | w # ws \<Rightarrow> (x # w) # ws))"

text \<open>\<open>xs.join(c)\<close> on strings.\<close>

fun join :: "char \<Rightarrow> string list \<Rightarrow> string" where
  "join c [] = []"
| "join c [w] = w"
| "join c (w # v # ws) = w @ c # join c (v # ws)"

subsection \<open>Decimal numerals\<close>

text \<open>
  A JavaScript number that holds an integer is an \<^typ>\<open>int\<close>. The numbers of the modelled
  code are version components and comparison results.
\<close>

definition digit_val :: "char \<Rightarrow> int" where
  "digit_val c = of_char c - 48"

definition digit_char :: "nat \<Rightarrow> char" where
  "digit_char n = char_of (48 + n)"

text \<open>The value of a string of decimal digits (unary \<open>+\<close> on it, before rounding).\<close>

definition digits_value :: "string \<Rightarrow> int" where
  "digits_value ds = foldl (\<lambda>a c. 10 * a + digit_val c) 0 ds"

text \<open>The decimal digits of a natural number.\<close>

fun digits_of_nat :: "nat \<Rightarrow> string" where
  "digits_of_nat n =
     (if n < 10 then [digit_char n] else digits_of_nat (n div 10) @ [digit_char (n mod 10)])"

declare digits_of_nat.simps [simp del]

text \<open>\<open>String(n)\<close> for an integer from 0 to \<open>10^21\<close>, which prints without an exponent.\<close>

definition js_string_of_number :: "int \<Rightarrow> string" where
  "js_string_of_number n = digits_of_nat (nat n)"

definition MAX_SAFE_INTEGER :: int where
  "MAX_SAFE_INTEGER = 9007199254740991"

definition MAX_LENGTH :: int where
  "MAX_LENGTH = 256"

text \<open>
  The IEEE double nearest to a non-negative integer (ties to even): what unary \<open>+\<close> yields
  on a digit string of that value. Integers below \<open>2^53\<close> are exact. The digit strings
  that reach it are shorter than 257 characters, far below the overflow threshold.
\<close>

definition js_number :: "int \<Rightarrow> int" where
  "js_number n =
     (if n < 2 ^ 53 then n
      else let sh = nat (bitlen n) - 53;
               q = n div 2 ^ sh;
               r = n mod 2 ^ sh;
               h = 2 ^ (sh - 1)
           in (if h < r \<or> (r = h \<and> odd q) then q + 1 else q) * 2 ^ sh)"

section \<open>The semver library, as the repository calls it\<close>

text \<open>
  The repository calls \<open>clean\<close>, \<open>valid\<close>, \<open>validRange\<close>, \<open>parse\<close>, \<open>major\<close>, \<open>minor\<close>,
  \<open>patch\<close>, \<open>gt\<close> and \<open>compare\<close> of the npm package \<open>semver\<close> (version 7), always without
  options, that is in strict mode. This section models those functions after the
  library's \<open>classes/semver.js\<close>, \<open>internal/re.js\<close> and \<open>internal/identifiers.js\<close>.
\<close>

subsection \<open>The grammar of a strict version\<close>

text \<open>\<open>NUMERICIDENTIFIER\<close>: \<open>0|[1-9]\d*\<close>.\<close>

definition numeric_identifier :: "string \<Rightarrow> bool" where
  "numeric_identifier s =
     (s \<noteq> [] \<and> list_all is_digit s \<and> (hd s = CHR ''0'' \<longrightarrow> length s = 1))"

text \<open>
  \<open>NONNUMERICIDENTIFIER\<close>: \<open>\d*[a-zA-Z-][a-zA-Z0-9-]*\<close>, the strings over
  \<open>[a-zA-Z0-9-]\<close> with a character that is not a digit.
\<close>

definition nonnumeric_identifier :: "string \<Rightarrow> bool" where
  "nonnumeric_identifier s = (list_all letterdashnumber s \<and> \<not> list_all is_digit s)"

definition prerelease_identifier :: "string \<Rightarrow> bool" where
  "prerelease_identifier s = (nonnumeric_identifier s \<or> numeric_identifier s)"

text \<open>\<open>BUILDIDENTIFIER\<close>: \<open>[a-zA-Z0-9-]+\<close>.\<close>

definition build_identifier :: "string \<Rightarrow> bool" where
  "build_identifier s = (s \<noteq> [] \<and> list_all letterdashnumber s)"

text \<open>The part of a string before the first occurrence of a character, and the part after
  it (\<open>None\<close> when the character does not occur).\<close>

definition before_first :: "char \<Rightarrow> string \<Rightarrow> string" where
  "before_first c s = takeWhile (\<lambda>x. x \<noteq> c) s"

definition after_first :: "char \<Rightarrow> string \<Rightarrow> string option" where
  "after_first c s = (case dropWhile (\<lambda>x. x \<noteq> c) s of [] \<Rightarrow> None | _ # r \<Rightarrow> Some r)"

text \<open>
  The match object of the regular expression \<open>FULL\<close>,
  \<^verbatim>\<open>^v?(N)\.(N)\.(N)(?:-(P(?:\.P)*))?(?:\+(B(?:\.B)*))?$\<close>
  with \<open>N\<close> a numeric, \<open>P\<close> a prerelease and \<open>B\<close> a build identifier.
  Groups 1 to 5 capture major, minor, patch, the prerelease and the build metadata.
  The main version holds digits and dots only, and no identifier holds \<open>+\<close> or a dot, so
  the first \<open>+\<close> starts the build metadata and the first \<open>-\<close> before it starts the
  prerelease. The bounded repetitions of the library's "safe" expressions (256 digits,
  250 identifier characters) cannot bind on a string of at most 256 characters and are
  left out.
\<close>

record full_match =
  m1 :: string
  m2 :: string
  m3 :: string
  m4 :: "string option"
  m5 :: "string option"

text \<open>The optional leading \<open>v\<close>.\<close>

definition strip_v :: "string \<Rightarrow> string" where
  "strip_v s = (case s of [] \<Rightarrow> [] | x # xs \<Rightarrow> if x = CHR ''v'' then xs else s)"

text \<open>The expression after the optional \<open>v\<close>, on the rest of the string.\<close>

definition match_plain :: "string \<Rightarrow> full_match option" where
  "match_plain body =
     (let rest = before_first CHR ''+'' body;
          bld = after_first CHR ''+'' body;
          mainv = before_first CHR ''-'' rest;
          pre = after_first CHR ''-'' rest
      in (case split_on CHR ''.'' mainv of
            [a, b, c] \<Rightarrow>
              if numeric_identifier a \<and> numeric_identifier b \<and> numeric_identifier c \<and>
                 (case pre of None \<Rightarrow> True
                  | Some p \<Rightarrow> list_all prerelease_identifier (split_on CHR ''.'' p)) \<and>
                 (case bld of None \<Rightarrow> True
                  | Some b \<Rightarrow> list_all build_identifier (split_on CHR ''.'' b))
              then Some \<lparr>m1 = a, m2 = b, m3 = c, m4 = pre, m5 = bld\<rparr>
              else None
          | _ \<Rightarrow> None))"

definition match_FULL :: "string \<Rightarrow> full_match option" where
  "match_FULL s = match_plain (strip_v s)"

subsection \<open>The class SemVer\<close>

text \<open>
  An identifier of a parsed version is a JavaScript number or a string. The constructor
  turns a prerelease identifier into a number when it is all digits and below
  \<open>MAX_SAFE_INTEGER\<close>; major, minor and patch are always numbers.
\<close>

datatype ident = IdNum int | IdStr string

record semver =
  sv_major :: int
  sv_minor :: int
  sv_patch :: int
  sv_prerelease :: "ident list"
  sv_build :: "string list"
  sv_version :: string

text \<open>The string a prerelease identifier contributes to \<open>prerelease.join('.')\<close>.\<close>

fun ident_string :: "ident \<Rightarrow> string" where
  "ident_string (IdNum n) = js_string_of_number n"
| "ident_string (IdStr s) = s"

text \<open>\<open>format()\<close>: \<open>major.minor.patch\<close>, then \<open>-\<close> and the prerelease when there is one.\<close>

definition format :: "int \<Rightarrow> int \<Rightarrow> int \<Rightarrow> ident list \<Rightarrow> string" where
  "format ma mi pa pre =
     js_string_of_number ma @ CHR ''.'' # js_string_of_number mi @ CHR ''.'' #
     js_string_of_number pa @
     (if pre = [] then [] else CHR ''-'' # join CHR ''.'' (map ident_string pre))"

text \<open>The map over the prerelease identifiers ("numberify any prerelease numeric ids").\<close>

definition numberify :: "string \<Rightarrow> ident" where
  "numberify i =
     (if i \<noteq> [] \<and> list_all is_digit i \<and>
         0 \<le> js_number (digits_value i) \<and> js_number (digits_value i) < MAX_SAFE_INTEGER
      then IdNum (js_number (digits_value i)) else IdStr i)"

text \<open>The fields that the constructor computes from the match object.\<close>

definition semver_of_match :: "full_match \<Rightarrow> error + semver" where
  "semver_of_match m =
     (let ma = js_number (digits_value (m1 m));
          mi = js_number (digits_value (m2 m));
          pa = js_number (digits_value (m3 m))
      in if (ma > MAX_SAFE_INTEGER \<or> ma < 0) \<or> (mi > MAX_SAFE_INTEGER \<or> mi < 0) \<or>
            (pa > MAX_SAFE_INTEGER \<or> pa < 0)
         then Inl TypeError
         else let pre = (case m4 m of None \<Rightarrow> []
                         | Some p \<Rightarrow> map numberify (split_on CHR ''.'' p));
                  bld = (case m5 m of None \<Rightarrow> [] | Some b \<Rightarrow> split_on CHR ''.'' b)
              in Inr \<lparr>sv_major = ma, sv_minor = mi, sv_patch = pa, sv_prerelease = pre,
                       sv_build = bld, sv_version = format ma mi pa pre\<rparr>)"

text \<open>\<open>new SemVer(version)\<close> on a string, in strict mode; \<open>Inl TypeError\<close> is the throw.\<close>

definition new_SemVer :: "string \<Rightarrow> error + semver" where
  "new_SemVer v =
     (if int (length v) > MAX_LENGTH then Inl TypeError
      else case match_FULL (trim v) of
        None \<Rightarrow> Inl TypeError
      | Some m \<Rightarrow> semver_of_match m)"

text \<open>\<open>parse\<close> catches the constructor's exception and returns null. A value that is not a
  string (here: null) makes the constructor throw, so it parses to null too.\<close>

definition semver_parse :: "string option \<Rightarrow> semver option" where
  "semver_parse v = (case v of None \<Rightarrow> None
              | Some s \<Rightarrow> (case new_SemVer s of Inl _ \<Rightarrow> None | Inr sv \<Rightarrow> Some sv))"

definition semver_valid :: "string option \<Rightarrow> string option" where
  "semver_valid v = (case semver_parse v of None \<Rightarrow> None | Some sv \<Rightarrow> Some (sv_version sv))"

text \<open>
  \<open>clean(version)\<close> is \<open>parse(version.trim().replace(/^[=v]+/, ''))\<close>; the method call
  \<open>version.trim()\<close> throws a \<open>TypeError\<close> on every JSON value that is not a string.
\<close>

definition trim_replace :: "string \<Rightarrow> string" where
  "trim_replace s = dropWhile (\<lambda>c. c = CHR ''='' \<or> c = CHR ''v'') (trim s)"

definition semver_clean :: "json \<Rightarrow> error + string option" where
  "semver_clean version =
     (case version of
        JStr s \<Rightarrow>
          (case semver_parse (Some (trim_replace s)) of
             None \<Rightarrow> Inr None
           | Some sv \<Rightarrow> Inr (Some (sv_version sv)))
      | _ \<Rightarrow> Inl TypeError)"

text \<open>\<open>semver.major(a)\<close> is \<open>new SemVer(a).major\<close>, likewise \<open>minor\<close> and \<open>patch\<close>.\<close>

definition semver_major :: "string \<Rightarrow> error + int" where
  "semver_major a = (case new_SemVer a of Inl e \<Rightarrow> Inl e | Inr sv \<Rightarrow> Inr (sv_major sv))"

definition semver_minor :: "string \<Rightarrow> error + int" where
  "semver_minor a = (case new_SemVer a of Inl e \<Rightarrow> Inl e | Inr sv \<Rightarrow> Inr (sv_minor sv))"

definition semver_patch :: "string \<Rightarrow> error + int" where
  "semver_patch a = (case new_SemVer a of Inl e \<Rightarrow> Inl e | Inr sv \<Rightarrow> Inr (sv_patch sv))"

subsection \<open>Comparison\<close>

text \<open>\<open>/^[0-9]+$/.test(a)\<close>: a number is tested through its decimal string.\<close>

fun numeric_test :: "ident \<Rightarrow> bool" where
  "numeric_test (IdNum n) = True"
| "numeric_test (IdStr s) = (s \<noteq> [] \<and> list_all is_digit s)"

text \<open>Unary \<open>+\<close> on an identifier that passed the test.\<close>

fun to_number :: "ident \<Rightarrow> int" where
  "to_number (IdNum n) = n"
| "to_number (IdStr s) = js_number (digits_value s)"

text \<open>
  \<open>compareIdentifiers\<close>: two numeric identifiers compare as numbers, a numeric one is below
  a non-numeric one, two non-numeric strings compare by code units.
\<close>

definition compareIdentifiers :: "ident \<Rightarrow> ident \<Rightarrow> int" where
  "compareIdentifiers a b =
     (let anum = numeric_test a; bnum = numeric_test b in
      if anum \<and> bnum then
        (if to_number a = to_number b then 0 else if to_number a < to_number b then - 1 else 1)
      else if a = b then 0
      else if anum \<and> \<not> bnum then - 1
      else if bnum \<and> \<not> anum then 1
      else if ident_string a < ident_string b then - 1
      else 1)"

definition compareMain :: "semver \<Rightarrow> semver \<Rightarrow> int" where
  "compareMain this other =
     (let c1 = compareIdentifiers (IdNum (sv_major this)) (IdNum (sv_major other)) in
      if c1 \<noteq> 0 then c1
      else let c2 = compareIdentifiers (IdNum (sv_minor this)) (IdNum (sv_minor other)) in
        if c2 \<noteq> 0 then c2
        else compareIdentifiers (IdNum (sv_patch this)) (IdNum (sv_patch other)))"

text \<open>The \<open>do ... while (++i)\<close> loop of \<open>comparePre\<close>, over the remaining identifiers.\<close>

fun comparePre_loop :: "ident list \<Rightarrow> ident list \<Rightarrow> int" where
  "comparePre_loop [] [] = 0"
| "comparePre_loop (a # as) [] = 1"
| "comparePre_loop [] (b # bs) = - 1"
| "comparePre_loop (a # as) (b # bs) =
     (if a = b then comparePre_loop as bs else compareIdentifiers a b)"

definition comparePre :: "semver \<Rightarrow> semver \<Rightarrow> int" where
  "comparePre this other =
     (if sv_prerelease this \<noteq> [] \<and> sv_prerelease other = [] then - 1
      else if sv_prerelease this = [] \<and> sv_prerelease other \<noteq> [] then 1
      else if sv_prerelease this = [] \<and> sv_prerelease other = [] then 0
      else comparePre_loop (sv_prerelease this) (sv_prerelease other))"

text \<open>The method \<open>compare\<close> of a SemVer against another SemVer.\<close>

definition sv_compare :: "semver \<Rightarrow> semver \<Rightarrow> int" where
  "sv_compare this other =
     (if sv_version other = sv_version this then 0
      else let c = compareMain this other in if c \<noteq> 0 then c else comparePre this other)"

text \<open>\<open>semver.compare(a, b)\<close> constructs both versions, so it throws on an invalid one.\<close>

definition semver_compare :: "string \<Rightarrow> string \<Rightarrow> error + int" where
  "semver_compare a b =
     (case new_SemVer a of Inl e \<Rightarrow> Inl e
      | Inr x \<Rightarrow> (case new_SemVer b of Inl e \<Rightarrow> Inl e | Inr y \<Rightarrow> Inr (sv_compare x y)))"

definition semver_gt :: "string \<Rightarrow> string \<Rightarrow> error + bool" where
  "semver_gt a b = (case semver_compare a b of Inl e \<Rightarrow> Inl e | Inr c \<Rightarrow> Inr (c > 0))"

subsection \<open>The versions on which the comparison is an order\<close>

text \<open>
  The constructor leaves an all-digit prerelease identifier a string when its number is
  not below \<open>MAX_SAFE_INTEGER\<close>, and \<open>compareIdentifiers\<close> then compares such strings as
  doubles, so that two different identifiers can compare equal while later identifiers
  are skipped. A version is \<open>safe\<close>, for the comparison, when it has no such identifier:
  every prerelease identifier that is a string has a character that is not a digit.
\<close>

definition safe_ident :: "ident \<Rightarrow> bool" where
  "safe_ident i = (case i of IdNum n \<Rightarrow> True | IdStr s \<Rightarrow> \<not> numeric_test (IdStr s))"

definition safe_semver :: "semver \<Rightarrow> bool" where
  "safe_semver sv = list_all safe_ident (sv_prerelease sv)"

definition safe_prerelease :: "string \<Rightarrow> bool" where
  "safe_prerelease v =
     (case semver_parse (Some v) of None \<Rightarrow> True | Some sv \<Rightarrow> safe_semver sv)"

text \<open>
  Keys in a linear order (lexicographic on tuples and lists, code units for characters)
  that the comparison of safe versions follows: numbers before strings among the
  identifiers, a prerelease before the release.
\<close>

definition ident_key :: "ident \<Rightarrow> nat \<times> int \<times> string" where
  "ident_key i = (case i of IdNum n \<Rightarrow> (0, n, []) | IdStr s \<Rightarrow> (1, 0, s))"

definition sv_key ::
  "semver \<Rightarrow> (int \<times> int \<times> int) \<times> (nat \<times> (nat \<times> int \<times> string) list)" where
  "sv_key sv =
     ((sv_major sv, sv_minor sv, sv_patch sv),
      ((if sv_prerelease sv = [] then 1 else 0), map ident_key (sv_prerelease sv)))"

text \<open>The key of a version string (of the zero version when the string is no version).\<close>

definition version_key ::
  "string \<Rightarrow> (int \<times> int \<times> int) \<times> (nat \<times> (nat \<times> int \<times> string) list)" where
  "version_key v =
     (case semver_parse (Some v) of None \<Rightarrow> ((0, 0, 0), (1, [])) | Some sv \<Rightarrow> sv_key sv)"

definition cmp_of :: "'a :: linorder \<Rightarrow> 'a \<Rightarrow> int" where
  "cmp_of a b = (if a = b then 0 else if a < b then - 1 else 1)"

section \<open>Values shared by the commands\<close>

text \<open>Truthiness of a value that is a string or null: null and the empty string are falsy.\<close>

definition truthy :: "string option \<Rightarrow> bool" where
  "truthy v = (case v of None \<Rightarrow> False | Some s \<Rightarrow> s \<noteq> [])"

text \<open>\<open>a || d\<close> for a value \<open>a\<close> that is a string or null.\<close>

definition or_default :: "string option \<Rightarrow> string \<Rightarrow> string" where
  "or_default a d = (case a of None \<Rightarrow> d | Some s \<Rightarrow> if s = [] then d else s)"

text \<open>An outcome of \<open>Promise.allSettled\<close>: the value of a fulfilled promise, or a rejection.\<close>

datatype 'a settled = Fulfilled 'a | Rejected

text \<open>
  \<open>Array.prototype.sort\<close> with a comparison function that may throw. The sort is stable,
  and for a consistent comparison function its result is the one this insertion sort
  computes: an element goes before the first later element it does not compare greater
  than. (For an inconsistent comparison function the language leaves the order to the
  implementation; the model then yields the order of an insertion sort, which, like the
  engines' merge sorts, leaves a list unchanged when no neighbours compare out of order.)
\<close>

fun insort_by :: "('a \<Rightarrow> 'a \<Rightarrow> error + int) \<Rightarrow> 'a \<Rightarrow> 'a list \<Rightarrow> error + 'a list" where
  "insort_by cmp x [] = Inr [x]"
| "insort_by cmp x (y # ys) =
     (case cmp x y of
        Inl e \<Rightarrow> Inl e
      | Inr c \<Rightarrow>
          if c \<le> 0 then Inr (x # y # ys)
          else (case insort_by cmp x ys of Inl e \<Rightarrow> Inl e | Inr r \<Rightarrow> Inr (y # r)))"

fun js_sort :: "('a \<Rightarrow> 'a \<Rightarrow> error + int) \<Rightarrow> 'a list \<Rightarrow> error + 'a list" where
  "js_sort cmp [] = Inr []"
| "js_sort cmp (x # xs) =
     (case js_sort cmp xs of Inl e \<Rightarrow> Inl e | Inr ys \<Rightarrow> insort_by cmp x ys)"

text \<open>\<open>xs.indexOf(x)\<close>, and \<open>s.toLowerCase()\<close> on code units below 256.\<close>

fun indexOf :: "'a list \<Rightarrow> 'a \<Rightarrow> int" where
  "indexOf [] x = - 1"
| "indexOf (y # ys) x = (if y = x then 0 else let i = indexOf ys x in if i < 0 then - 1 else i + 1)"

definition lower_char :: "char \<Rightarrow> char" where
  "lower_char c =
     (let n = (of_char c :: nat) in
      if (65 \<le> n \<and> n \<le> 90) \<or> (192 \<le> n \<and> n \<le> 222 \<and> n \<noteq> 215) then char_of (n + 32) else c)"

definition toLowerCase :: "string \<Rightarrow> string" where
  "toLowerCase s = map lower_char s"

section \<open>services/parser.js\<close>

record VersionRangeInfo =
  original :: json
  clean :: "string option"
  valid :: "string option"
  range' :: "string option"
  isExact :: bool
  isRange :: bool
  major :: "int option"
  minor :: "int option"
  patch :: "int option"

text \<open>\<open>valid ? f(valid) : null\<close>, where \<open>f\<close> may throw.\<close>

definition if_valid :: "string option \<Rightarrow> (string \<Rightarrow> error + int) \<Rightarrow> error + int option" where
  "if_valid v f =
     (case v of
        None \<Rightarrow> Inr None
      | Some s \<Rightarrow> if s = [] then Inr None
                  else (case f s of Inl e \<Rightarrow> Inl e | Inr n \<Rightarrow> Inr (Some n)))"

text \<open>
  \<open>parseVersionRange(version)\<close>. The library's \<open>validRange\<close> is a parameter: it catches
  its own exceptions and returns the normalised range or null.
\<close>

definition parseVersionRange :: "(json \<Rightarrow> string option) \<Rightarrow> json \<Rightarrow> error + VersionRangeInfo" where
  "parseVersionRange validRange version =
     (case semver_clean version of
        Inl e \<Rightarrow> Inl e
      | Inr cl \<Rightarrow>
          let va = semver_valid cl;
              ra = validRange version
          in (case if_valid va semver_major of
                Inl e \<Rightarrow> Inl e
              | Inr ma \<Rightarrow>
                 (case if_valid va semver_minor of
                    Inl e \<Rightarrow> Inl e
                  | Inr mi \<Rightarrow>
                     (case if_valid va semver_patch of
                        Inl e \<Rightarrow> Inl e
                      | Inr pa \<Rightarrow>
                          Inr \<lparr>original = version, clean = cl, valid = va, range' = ra,
                               isExact = (va \<noteq> None),
                               isRange = (ra \<noteq> None \<and> va = None),
                               major = ma, minor = mi, patch = pa\<rparr>))))"

definition dependencyTypes :: "string list" where
  "dependencyTypes =
     [''dependencies'', ''devDependencies'', ''peerDependencies'', ''optionalDependencies'']"

record dependency =
  dep_name :: string
  dep_version :: json
  dep_type :: string
  dep_range :: VersionRangeInfo

text \<open>
  \<open>packageJson[depType]\<close> for one of the four section names: a property read throws on
  null, finds the own property of an object, and is undefined on any other JSON value.
\<close>

definition get_prop :: "json \<Rightarrow> string \<Rightarrow> error + json option" where
  "get_prop doc k =
     (case doc of JNull \<Rightarrow> Inl TypeError | JObj kvs \<Rightarrow> Inr (map_of kvs k) | _ \<Rightarrow> Inr None)"

text \<open>
  \<open>Object.entries(deps)\<close> under the guard \<open>deps && typeof deps === 'object'\<close>, which
  objects and arrays pass; \<open>None\<close> when the guard fails.
\<close>

definition section_entries :: "json option \<Rightarrow> (string \<times> json) list option" where
  "section_entries deps =
     (case deps of
        Some (JObj kvs) \<Rightarrow> Some kvs
      | Some (JArr xs) \<Rightarrow> Some (zip (map digits_of_nat [0..<length xs]) xs)
      | _ \<Rightarrow> None)"

text \<open>
  The result is a \<open>Map\<close>: an association list in insertion order, where setting a key that
  is present replaces its value in place (\<^const>\<open>AList.update\<close>).
\<close>

fun extract_entries ::
  "(json \<Rightarrow> string option) \<Rightarrow> string \<Rightarrow> (string \<times> json) list \<Rightarrow>
   (string \<times> dependency) list \<Rightarrow> error + (string \<times> dependency) list" where
  "extract_entries validRange depType [] dependencies = Inr dependencies"
| "extract_entries validRange depType ((name, version) # es) dependencies =
     (case parseVersionRange validRange version of
        Inl e \<Rightarrow> Inl e
      | Inr r \<Rightarrow>
          extract_entries validRange depType es
            (AList.update name
               \<lparr>dep_name = name, dep_version = version, dep_type = depType, dep_range = r\<rparr>
               dependencies))"

fun extract_types ::
  "(json \<Rightarrow> string option) \<Rightarrow> json \<Rightarrow> string list \<Rightarrow>
   (string \<times> dependency) list \<Rightarrow> error + (string \<times> dependency) list" where
  "extract_types validRange packageJson [] dependencies = Inr dependencies"
| "extract_types validRange packageJson (depType # ts) dependencies =
     (case get_prop packageJson depType of
        Inl e \<Rightarrow> Inl e
      | Inr deps \<Rightarrow>
          (case section_entries deps of
             None \<Rightarrow> extract_types validRange packageJson ts dependencies
           | Some es \<Rightarrow>
               (case extract_entries validRange depType es dependencies of
                  Inl e \<Rightarrow> Inl e
                | Inr dependencies' \<Rightarrow> extract_types validRange packageJson ts dependencies')))"

definition extractDependencies ::
  "(json \<Rightarrow> string option) \<Rightarrow> json \<Rightarrow> error + (string \<times> dependency) list" where
  "extractDependencies validRange packageJson =
     extract_types validRange packageJson dependencyTypes []"

text \<open>
  The entries that the loop of \<open>extractDependencies\<close> reads for a section name: none when
  the section is missing or is neither an object nor an array.
\<close>

definition section_of :: "json \<Rightarrow> string \<Rightarrow> (string \<times> json) list" where
  "section_of packageJson depType =
     (case get_prop packageJson depType of
        Inl e \<Rightarrow> []
      | Inr deps \<Rightarrow> (case section_entries deps of None \<Rightarrow> [] | Some es \<Rightarrow> es))"

section \<open>commands/update.js\<close>

datatype UpdateType = Major | Minor | Patch | NoUpdate | Unknown

datatype Priority = High | Medium | Low

text \<open>\<open>getUpdateType\<close> as declared in \<open>commands/update.js\<close>. The result strings \<open>'major'\<close>,
  \<open>'minor'\<close>, \<open>'patch'\<close>, \<open>'none'\<close> and \<open>'unknown'\<close> are the constructors of
  \<^typ>\<open>UpdateType\<close>.\<close>

definition update_getUpdateType :: "string option \<Rightarrow> string option \<Rightarrow> UpdateType" where
  "update_getUpdateType currentVersion newVersion =
     (if \<not> truthy currentVersion \<or> \<not> truthy newVersion then Unknown
      else case semver_parse currentVersion of
        None \<Rightarrow> Unknown
      | Some current \<Rightarrow>
         (case semver_parse newVersion of
            None \<Rightarrow> Unknown
          | Some latest \<Rightarrow>
              if sv_major latest > sv_major current then Major
              else if sv_minor latest > sv_minor current then Minor
              else if sv_patch latest > sv_patch current then Patch
              else NoUpdate))"

record update =
  upd_version :: string
  upd_type :: UpdateType
  upd_breaking :: bool
  upd_semver :: "semver option"

text \<open>The loop of \<open>analyzeAvailableUpdates\<close> over the sorted versions.\<close>

fun analyze_loop :: "string \<Rightarrow> bool \<Rightarrow> string list \<Rightarrow> error + update list" where
  "analyze_loop currentVersion includeMajor [] = Inr []"
| "analyze_loop currentVersion includeMajor (version # vs) =
     (case semver_gt version currentVersion of
        Inl e \<Rightarrow> Inl e
      | Inr newer \<Rightarrow>
          if \<not> newer then analyze_loop currentVersion includeMajor vs
          else let updateType = update_getUpdateType (Some currentVersion) (Some version) in
            if updateType = Major \<and> \<not> includeMajor
            then analyze_loop currentVersion includeMajor vs
            else (case analyze_loop currentVersion includeMajor vs of
                    Inl e \<Rightarrow> Inl e
                  | Inr updates \<Rightarrow>
                      Inr (\<lparr>upd_version = version, upd_type = updateType,
                            upd_breaking = (updateType = Major),
                            upd_semver = semver_parse (Some version)\<rparr> # updates)))"

definition analyzeAvailableUpdates ::
  "VersionRangeInfo \<Rightarrow> string list \<Rightarrow> bool \<Rightarrow> error + update list" where
  "analyzeAvailableUpdates currentRange allVersions includeMajor =
     (case clean currentRange of
        None \<Rightarrow> Inr []
      | Some currentVersion \<Rightarrow>
          if currentVersion = [] then Inr []
          else (case js_sort (\<lambda>a b. semver_compare b a)
                       (filter (\<lambda>version. truthy (semver_valid (Some version))) allVersions) of
                  Inl e \<Rightarrow> Inl e
                | Inr sortedVersions \<Rightarrow> analyze_loop currentVersion includeMajor sortedVersions))"

record recommendation =
  rec_type :: UpdateType
  rec_version :: string
  rec_priority :: Priority
  rec_reason :: string
  rec_breaking :: bool

text \<open>\<open>generateRecommendations\<close>; \<open>major\<close> is \<open>options.major\<close>.\<close>

definition generateRecommendations ::
  "dependency \<Rightarrow> update list \<Rightarrow> bool \<Rightarrow> recommendation list" where
  "generateRecommendations dep availableUpdates major_opt =
     (if availableUpdates = [] then []
      else
        (case filter (\<lambda>u. upd_type u = Patch) availableUpdates of
           [] \<Rightarrow> []
         | latestPatch # _ \<Rightarrow>
             [\<lparr>rec_type = Patch, rec_version = upd_version latestPatch, rec_priority = High,
               rec_reason = ''Safe bug fixes and improvements'', rec_breaking = False\<rparr>]) @
        (case filter (\<lambda>u. upd_type u = Minor) availableUpdates of
           [] \<Rightarrow> []
         | latestMinor # _ \<Rightarrow>
             [\<lparr>rec_type = Minor, rec_version = upd_version latestMinor, rec_priority = Medium,
               rec_reason = ''New features and improvements'', rec_breaking = False\<rparr>]) @
        (if major_opt then
           (case filter (\<lambda>u. upd_type u = Major) availableUpdates of
              [] \<Rightarrow> []
            | latestMajor # _ \<Rightarrow>
                [\<lparr>rec_type = Major, rec_version = upd_version latestMajor, rec_priority = Low,
                  rec_reason = ''Major version with potential breaking changes'',
                  rec_breaking = True\<rparr>])
         else []))"

record update_result =
  res_name :: string
  res_currentVersion :: json
  res_currentRange :: VersionRangeInfo
  res_dependencyType :: string
  res_latestVersion :: "string option"
  res_availableUpdates :: "update list"
  res_recommendations :: "recommendation list"

text \<open>
  One iteration of the loop of \<open>getUpdateRecommendations\<close>, on the settled lookups of the
  latest version and of the version list of the dependency.
\<close>

definition update_one ::
  "dependency \<Rightarrow> string option settled \<Rightarrow> string list settled \<Rightarrow> bool \<Rightarrow> error + update_result" where
  "update_one dep latestVersionResult allVersionsResult major_opt =
     (let result = \<lparr>res_name = dep_name dep, res_currentVersion = dep_version dep,
                     res_currentRange = dep_range dep, res_dependencyType = dep_type dep,
                     res_latestVersion = None, res_availableUpdates = [],
                     res_recommendations = []\<rparr>
      in case latestVersionResult of
           Fulfilled latest \<Rightarrow>
             if truthy latest then
               (case (case allVersionsResult of
                        Fulfilled allVersions \<Rightarrow>
                          analyzeAvailableUpdates (dep_range dep) allVersions major_opt
                      | Rejected \<Rightarrow> Inr []) of
                  Inl e \<Rightarrow> Inl e
                | Inr updates \<Rightarrow>
                    Inr (result\<lparr>res_latestVersion := latest, res_availableUpdates := updates,
                           res_recommendations := generateRecommendations dep updates major_opt\<rparr>))
             else Inr result
         | Rejected \<Rightarrow> Inr result)"

text \<open>
  \<open>getUpdateRecommendations\<close>: the registry is the pair of functions that give, for a
  package name, the settled outcome of \<open>getLatestVersion\<close> and of \<open>getVersions\<close>.
\<close>

fun getUpdateRecommendations ::
  "(string \<times> dependency) list \<Rightarrow> (string \<Rightarrow> string option settled) \<Rightarrow>
   (string \<Rightarrow> string list settled) \<Rightarrow> bool \<Rightarrow> error + update_result list" where
  "getUpdateRecommendations [] latestOf versionsOf major_opt = Inr []"
| "getUpdateRecommendations ((packageName, dep) # ds) latestOf versionsOf major_opt =
     (case update_one dep (latestOf packageName) (versionsOf packageName) major_opt of
        Inl e \<Rightarrow> Inl e
      | Inr result \<Rightarrow>
          (case getUpdateRecommendations ds latestOf versionsOf major_opt of
             Inl e \<Rightarrow> Inl e
           | Inr results \<Rightarrow> Inr (result # results)))"

record update_summary =
  us_total :: nat
  us_upToDate :: nat
  us_hasUpdates :: nat
  us_patchUpdates :: nat
  us_minorUpdates :: nat
  us_majorUpdates :: nat

text \<open>The \<open>summary\<close> of \<open>generateUpdateReport\<close> (the report's other fields copy the package
  name, the results and the options).\<close>

definition generateUpdateReport :: "update_result list \<Rightarrow> update_summary" where
  "generateUpdateReport updateResults =
     (let allRecommendations = concat (map res_recommendations updateResults) in
      \<lparr>us_total = length updateResults,
       us_upToDate = length (filter (\<lambda>r. length (res_recommendations r) = 0) updateResults),
       us_hasUpdates = length (filter (\<lambda>r. length (res_recommendations r) > 0) updateResults),
       us_patchUpdates = length (filter (\<lambda>r. rec_type r = Patch) allRecommendations),
       us_minorUpdates = length (filter (\<lambda>r. rec_type r = Minor) allRecommendations),
       us_majorUpdates = length (filter (\<lambda>r. rec_type r = Major) allRecommendations)\<rparr>)"

section \<open>commands/check.js\<close>

text \<open>\<open>getUpdateType\<close> as declared in \<open>commands/check.js\<close>.\<close>

definition check_getUpdateType :: "string option \<Rightarrow> string option \<Rightarrow> UpdateType" where
  "check_getUpdateType currentVersion latestVersion =
     (if \<not> truthy currentVersion \<or> \<not> truthy latestVersion then Unknown
      else case semver_parse currentVersion of
        None \<Rightarrow> Unknown
      | Some current \<Rightarrow>
         (case semver_parse latestVersion of
            None \<Rightarrow> Unknown
          | Some latest \<Rightarrow>
              if sv_major latest > sv_major current then Major
              else if sv_minor latest > sv_minor current then Minor
              else if sv_patch latest > sv_patch current then Patch
              else NoUpdate))"

record check_result =
  chk_name :: string
  chk_currentVersion :: json
  chk_latestVersion :: "string option"
  chk_updateAvailable :: bool
  chk_updateType :: "UpdateType option"
  chk_vulnerabilities :: "json list"
  chk_dependencyType :: string
  chk_range :: VersionRangeInfo

text \<open>
  One iteration of the loop of \<open>checkDependencies\<close>. \<open>getVulnerabilities\<close> is the registry
  service's lookup (in this repository it returns the empty list or a cached value).
\<close>

definition check_one ::
  "dependency \<Rightarrow> string option settled \<Rightarrow> (string \<Rightarrow> string \<Rightarrow> json list) \<Rightarrow> error + check_result" where
  "check_one dep latestVersionResult getVulnerabilities =
     (let result = \<lparr>chk_name = dep_name dep, chk_currentVersion = dep_version dep,
                     chk_latestVersion = None, chk_updateAvailable = False,
                     chk_updateType = None, chk_vulnerabilities = [],
                     chk_dependencyType = dep_type dep, chk_range = dep_range dep\<rparr>;
          cl = clean (dep_range dep);
          vulns = (case cl of
                     None \<Rightarrow> []
                   | Some c \<Rightarrow> if c = [] then [] else getVulnerabilities (dep_name dep) c)
      in case latestVersionResult of
           Fulfilled (Some latest) \<Rightarrow>
             if latest = [] then Inr (result\<lparr>chk_vulnerabilities := vulns\<rparr>)
             else
               (case semver_gt latest (or_default cl ''0.0.0'') of
                  Inl e \<Rightarrow> Inl e
                | Inr updateAvailable \<Rightarrow>
                    Inr (result\<lparr>chk_latestVersion := Some latest,
                           chk_updateAvailable := updateAvailable,
                           chk_updateType :=
                             (if updateAvailable
                              then Some (check_getUpdateType cl (Some latest)) else None),
                           chk_vulnerabilities := vulns\<rparr>))
         | _ \<Rightarrow> Inr (result\<lparr>chk_vulnerabilities := vulns\<rparr>))"

fun checkDependencies ::
  "(string \<times> dependency) list \<Rightarrow> (string \<Rightarrow> string option settled) \<Rightarrow>
   (string \<Rightarrow> string \<Rightarrow> json list) \<Rightarrow> error + check_result list" where
  "checkDependencies [] latestOf getVulnerabilities = Inr []"
| "checkDependencies ((packageName, dep) # ds) latestOf getVulnerabilities =
     (case check_one dep (latestOf packageName) getVulnerabilities of
        Inl e \<Rightarrow> Inl e
      | Inr result \<Rightarrow>
          (case checkDependencies ds latestOf getVulnerabilities of
             Inl e \<Rightarrow> Inl e
           | Inr results \<Rightarrow> Inr (result # results)))"

record check_summary =
  cs_total :: nat
  cs_upToDate :: nat
  cs_outdated :: nat
  cs_majorUpdates :: nat
  cs_minorUpdates :: nat
  cs_patchUpdates :: nat
  cs_vulnerabilities :: nat

text \<open>The \<open>summary\<close> of \<open>generateReport\<close> (the report's other fields copy the package name,
  the results and the parser's statistics).\<close>

definition generateReport :: "check_result list \<Rightarrow> check_summary" where
  "generateReport results =
     \<lparr>cs_total = length results,
      cs_upToDate = length (filter (\<lambda>r. \<not> chk_updateAvailable r) results),
      cs_outdated = length (filter (\<lambda>r. chk_updateAvailable r) results),
      cs_majorUpdates = length (filter (\<lambda>r. chk_updateType r = Some Major) results),
      cs_minorUpdates = length (filter (\<lambda>r. chk_updateType r = Some Minor) results),
      cs_patchUpdates = length (filter (\<lambda>r. chk_updateType r = Some Patch) results),
      cs_vulnerabilities = foldl (\<lambda>sum r. sum + length (chk_vulnerabilities r)) 0 results\<rparr>"

section \<open>commands/audit.js\<close>

record vulnerability =
  vuln_id :: string
  severity :: string
  title :: string
  description :: string
  affectedVersions :: string
  fixedVersions :: string
  cwe :: string

definition severityLevels :: "string list" where
  "severityLevels = [''low'', ''moderate'', ''high'', ''critical'']"

text \<open>
  \<open>mockVulnerabilities[name] || []\<close> followed by the call of \<open>.filter\<close> on it. The table is
  an object literal, so a name that \<open>Object.prototype\<close> defines reads an inherited member,
  which has no \<open>filter\<close> method: the call throws.
\<close>

definition object_prototype_names :: "string list" where
  "object_prototype_names =
     [''constructor'', ''__proto__'', ''hasOwnProperty'', ''isPrototypeOf'',
      ''propertyIsEnumerable'', ''toLocaleString'', ''toString'', ''valueOf'',
      ''__defineGetter__'', ''__defineSetter__'', ''__lookupGetter__'', ''__lookupSetter__'']"

definition mockVulnerabilities :: "string \<Rightarrow> error + vulnerability list" where
  "mockVulnerabilities name =
     (if name = ''lodash'' then
        Inr [\<lparr>vuln_id = ''CVE-2021-23337'', severity = ''high'',
              title = ''Prototype Pollution in lodash'',
              description =
                ''A prototype pollution vulnerability in lodash versions before 4.17.21'',
              affectedVersions = ''<4.17.21'', fixedVersions = ''>=4.17.21'',
              cwe = ''CWE-1321''\<rparr>]
      else if name = ''axios'' then
        Inr [\<lparr>vuln_id = ''CVE-2023-45857'', severity = ''moderate'',
              title = ''SSRF vulnerability in axios'',
              description = ''Server-Side Request Forgery vulnerability in axios'',
              affectedVersions = ''<1.6.0'', fixedVersions = ''>=1.6.0'',
              cwe = ''CWE-918''\<rparr>]
      else if name \<in> set object_prototype_names then Inl TypeError
      else Inr [])"

record audit_result =
  ar_package :: string
  ar_currentVersion :: json
  ar_dependencyType :: string
  ar_vulnerabilities :: "vulnerability list"

text \<open>The filter of \<open>performSecurityAudit\<close> ("Filter by severity level").\<close>

definition filteredVulns :: "int \<Rightarrow> vulnerability list \<Rightarrow> vulnerability list" where
  "filteredVulns minSeverityIndex vulnerabilities =
     filter (\<lambda>vuln. indexOf severityLevels (severity vuln) \<ge> minSeverityIndex) vulnerabilities"

text \<open>
  The loop of \<open>performSecurityAudit\<close> over the entries of the dependency map. The source
  of the findings is a parameter, so that the loop is defined for every findings list;
  the repository's is \<^const>\<open>mockVulnerabilities\<close>.
\<close>

fun audit_loop ::
  "(string \<Rightarrow> error + vulnerability list) \<Rightarrow> int \<Rightarrow> (string \<times> dependency) list \<Rightarrow>
   error + audit_result list" where
  "audit_loop findings minSeverityIndex [] = Inr []"
| "audit_loop findings minSeverityIndex ((name, dep) # ds) =
     (case findings name of
        Inl e \<Rightarrow> Inl e
      | Inr vulnerabilities \<Rightarrow>
          (case audit_loop findings minSeverityIndex ds of
             Inl e \<Rightarrow> Inl e
           | Inr results \<Rightarrow>
               let filtered = filteredVulns minSeverityIndex vulnerabilities in
               if length filtered > 0
               then Inr (\<lparr>ar_package = name, ar_currentVersion = dep_version dep,
                           ar_dependencyType = dep_type dep,
                           ar_vulnerabilities = filtered\<rparr> # results)
               else Inr results))"

definition performSecurityAudit ::
  "(string \<Rightarrow> error + vulnerability list) \<Rightarrow> (string \<times> dependency) list \<Rightarrow> string \<Rightarrow>
   error + audit_result list" where
  "performSecurityAudit findings dependencies severityLevel =
     audit_loop findings (indexOf severityLevels (toLowerCase severityLevel)) dependencies"

text \<open>A finding of the report: the vulnerability with the fields of its package added.\<close>

record reported_vulnerability =
  rv_vuln :: vulnerability
  rv_package :: string
  rv_currentVersion :: json
  rv_dependencyType :: string

text \<open>\<open>allVulnerabilities\<close> of \<open>generateAuditReport\<close>, the report's \<open>vulnerabilities\<close>.\<close>

definition allVulnerabilities :: "audit_result list \<Rightarrow> reported_vulnerability list" where
  "allVulnerabilities auditResults =
     concat (map (\<lambda>result.
                    map (\<lambda>vuln. \<lparr>rv_vuln = vuln, rv_package = ar_package result,
                                  rv_currentVersion = ar_currentVersion result,
                                  rv_dependencyType = ar_dependencyType result\<rparr>)
                        (ar_vulnerabilities result))
                 auditResults)"

text \<open>\<open>severityOrder[s]\<close> as a number; \<open>None\<close> when the subtraction would yield \<open>NaN\<close>.\<close>

definition severityOrder :: "string \<Rightarrow> int option" where
  "severityOrder s =
     (if s = ''critical'' then Some 0 else if s = ''high'' then Some 1
      else if s = ''moderate'' then Some 2 else if s = ''low'' then Some 3 else None)"

text \<open>
  \<open>sortedVulns\<close> of \<open>displayAuditResults\<close>, the order in which findings are printed. The
  sort reads a comparison result \<open>NaN\<close> as \<open>+0\<close>.
\<close>

definition sortedVulns :: "reported_vulnerability list \<Rightarrow> error + reported_vulnerability list" where
  "sortedVulns vulnerabilities =
     js_sort (\<lambda>a b. Inr (case (severityOrder (severity (rv_vuln a)),
                                severityOrder (severity (rv_vuln b))) of
                            (Some x, Some y) \<Rightarrow> x - y
                          | _ \<Rightarrow> 0))
             vulnerabilities"

section \<open>Example values\<close>

text \<open>Dependency records as \<open>extractDependencies\<close> builds them, for the concrete instances below.\<close>

text \<open>The answers of the library's \<open>validRange\<close> on the version strings of the examples.\<close>

definition example_validRange :: "json \<Rightarrow> string option" where
  "example_validRange version =
     (if version = JStr ''^1.2.0'' then Some ''>=1.2.0 <2.0.0-0''
      else if version = JStr ''4.17.20'' then Some ''4.17.20''
      else if version = JStr ''1.5.0'' then Some ''1.5.0''
      else if version = JStr ''1.0.0'' then Some ''1.0.0''
      else None)"

definition lodash_range :: VersionRangeInfo where
  "lodash_range =
     \<lparr>original = JStr ''4.17.20'', clean = Some ''4.17.20'', valid = Some ''4.17.20'',
      range' = Some ''4.17.20'', isExact = True, isRange = False,
      major = Some 4, minor = Some 17, patch = Some 20\<rparr>"

definition lodash_dep :: dependency where
  "lodash_dep =
     \<lparr>dep_name = ''lodash'', dep_version = JStr ''4.17.20'', dep_type = ''dependencies'',
      dep_range = lodash_range\<rparr>"

definition caret_range :: VersionRangeInfo where
  "caret_range =
     \<lparr>original = JStr ''^1.2.0'', clean = None, valid = None,
      range' = Some ''>=1.2.0 <2.0.0-0'', isExact = False, isRange = True,
      major = None, minor = None, patch = None\<rparr>"

definition caret_dep :: dependency where
  "caret_dep =
     \<lparr>dep_name = ''express'', dep_version = JStr ''^1.2.0'', dep_type = ''dependencies'',
      dep_range = caret_range\<rparr>"

text \<open>A dependency on version 1.0.0, and three prereleases of 1.0.1 whose first identifier
  is a digit string at or above \<open>MAX_SAFE_INTEGER\<close>.\<close>

definition one_zero_range :: VersionRangeInfo where
  "one_zero_range =
     \<lparr>original = JStr ''1.0.0'', clean = Some ''1.0.0'', valid = Some ''1.0.0'',
      range' = Some ''1.0.0'', isExact = True, isRange = False,
      major = Some 1, minor = Some 0, patch = Some 0\<rparr>"

definition one_zero_dep :: dependency where
  "one_zero_dep =
     \<lparr>dep_name = ''pkg'', dep_version = JStr ''1.0.0'', dep_type = ''dependencies'',
      dep_range = one_zero_range\<rparr>"

definition pre_x :: string where "pre_x = ''1.0.1-9007199254740992.1''"

definition pre_y :: string where "pre_y = ''1.0.1-9007199254740993.2''"

definition pre_z :: string where "pre_z = ''1.0.1-9007199254740992.2''"

text \<open>Published versions of \<open>lodash\<close>, in the registry's order.\<close>

definition lodash_versions :: "string list" where
  "lodash_versions =
     [''4.17.19'', ''4.17.21'', ''4.17.20'', ''4.18.0'', ''5.0.0'', ''4.17.22'', ''4.18.0-rc.1'']"

text \<open>Findings of three severities for one package, in the order moderate, high, critical.\<close>

definition finding :: "string \<Rightarrow> string \<Rightarrow> vulnerability" where
  "finding i s =
     \<lparr>vuln_id = i, severity = s, title = ''t'', description = ''d'',
      affectedVersions = ''<4.17.21'', fixedVersions = ''>=4.17.21'', cwe = ''CWE-1''\<rparr>"

definition example_findings :: "string \<Rightarrow> vulnerability list" where
  "example_findings name =
     (if name = ''lodash''
      then [finding ''A'' ''moderate'', finding ''B'' ''high'', finding ''C'' ''critical'']
      else [])"

text \<open>A manifest that declares \<open>lodash\<close> in two sections.\<close>

definition two_section_manifest :: json where
  "two_section_manifest =
     JObj [(''name'', JStr ''demo''),
           (''dependencies'', JObj [(''lodash'', JStr ''4.17.20''), (''axios'', JStr ''1.5.0'')]),
           (''devDependencies'', JObj [(''lodash'', JStr ''^1.2.0'')])]"

section \<open>The update classifier\<close>

lemma new_SemVer_empty: "new_SemVer [] = Inl TypeError"
  by code_simp

lemma semver_parse_falsy: "\<not> truthy v \<Longrightarrow> semver_parse v = None"
  by (auto simp: truthy_def semver_parse_def new_SemVer_empty split: option.splits)

lemma case_unknown:
  "p = None \<or> q = None \<Longrightarrow>
   (case p of None \<Rightarrow> Unknown
    | Some c \<Rightarrow> (case q of None \<Rightarrow> Unknown | Some l \<Rightarrow> f c l)) = Unknown"
  by (cases p; cases q) auto

lemma update_getUpdateType_eq:
  "update_getUpdateType currentVersion candidate =
     (case semver_parse currentVersion of
        None \<Rightarrow> Unknown
      | Some current \<Rightarrow>
         (case semver_parse candidate of
            None \<Rightarrow> Unknown
          | Some latest \<Rightarrow>
              if sv_major latest > sv_major current then Major
              else if sv_minor latest > sv_minor current then Minor
              else if sv_patch latest > sv_patch current then Patch
              else NoUpdate))"
proof (cases "truthy currentVersion \<and> truthy candidate")
  case True
  then show ?thesis
    unfolding update_getUpdateType_def by simp
next
  case False
  then have n: "semver_parse currentVersion = None \<or> semver_parse candidate = None"
    using semver_parse_falsy [of currentVersion] semver_parse_falsy [of candidate] by auto
  from False have u: "update_getUpdateType currentVersion candidate = Unknown"
    unfolding update_getUpdateType_def by auto
  show ?thesis
    by (simp only: u case_unknown [OF n])
qed

lemma check_getUpdateType_eq: "check_getUpdateType c l = update_getUpdateType c l"
  by (simp add: update_getUpdateType_def check_getUpdateType_def)

lemma parse_4_17_20:
  "semver_parse (Some ''4.17.20'') =
     Some \<lparr>sv_major = 4, sv_minor = 17, sv_patch = 20, sv_prerelease = [], sv_build = [],
           sv_version = ''4.17.20''\<rparr>"
  by code_simp

lemma parse_4_17_21:
  "semver_parse (Some ''4.17.21'') =
     Some \<lparr>sv_major = 4, sv_minor = 17, sv_patch = 21, sv_prerelease = [], sv_build = [],
           sv_version = ''4.17.21''\<rparr>"
  by code_simp

lemma parse_2_0_0:
  "semver_parse (Some ''2.0.0'') =
     Some \<lparr>sv_major = 2, sv_minor = 0, sv_patch = 0, sv_prerelease = [], sv_build = [],
           sv_version = ''2.0.0''\<rparr>"
  by code_simp

lemma parse_1_5_0:
  "semver_parse (Some ''1.5.0'') =
     Some \<lparr>sv_major = 1, sv_minor = 5, sv_patch = 0, sv_prerelease = [], sv_build = [],
           sv_version = ''1.5.0''\<rparr>"
  by code_simp

text \<open>
  Claim C1. \<open>getUpdateType\<close>, in \<open>commands/update.js\<close> and in \<open>commands/check.js\<close>, returns
  \<open>'unknown'\<close> when the current or the candidate version fails the strict parse (null and
  the empty string fail it); otherwise \<open>'major'\<close> if the candidate's major number exceeds
  the current one, else \<open>'minor'\<close> if its minor number does, else \<open>'patch'\<close> if its patch
  number does, else \<open>'none'\<close>.
\<close>

theorem getUpdateType_rule:
  "update_getUpdateType currentVersion candidate =
     (case semver_parse currentVersion of
        None \<Rightarrow> Unknown
      | Some current \<Rightarrow>
         (case semver_parse candidate of
            None \<Rightarrow> Unknown
          | Some latest \<Rightarrow>
              if sv_major latest > sv_major current then Major
              else if sv_minor latest > sv_minor current then Minor
              else if sv_patch latest > sv_patch current then Patch
              else NoUpdate))
   \<and> check_getUpdateType currentVersion candidate =
     (case semver_parse currentVersion of
        None \<Rightarrow> Unknown
      | Some current \<Rightarrow>
         (case semver_parse candidate of
            None \<Rightarrow> Unknown
          | Some latest \<Rightarrow>
              if sv_major latest > sv_major current then Major
              else if sv_minor latest > sv_minor current then Minor
              else if sv_patch latest > sv_patch current then Patch
              else NoUpdate))"
  unfolding check_getUpdateType_eq
  by (rule conjI; rule update_getUpdateType_eq)

theorem getUpdateType_rule_witness:
  "update_getUpdateType (Some ''4.17.20'') (Some ''4.17.21'') = Patch \<and>
   check_getUpdateType (Some ''4.17.20'') (Some ''4.17.21'') = Patch"
  using getUpdateType_rule [of "Some ''4.17.20''" "Some ''4.17.21''"]
  by (simp add: parse_4_17_20 parse_4_17_21)

text \<open>
  Claim C7. The classifier of the update command and the classifier of the check command
  are the same function: on every pair of arguments they return the same classification.
\<close>

theorem getUpdateType_same: "update_getUpdateType = check_getUpdateType"
  by (rule ext, rule ext) (simp add: update_getUpdateType_def check_getUpdateType_def)

theorem getUpdateType_same_witness:
  "update_getUpdateType (Some ''1.5.0'') (Some ''2.0.0'') = Major \<and>
   check_getUpdateType (Some ''1.5.0'') (Some ''2.0.0'') = Major"
proof -
  have "update_getUpdateType (Some ''1.5.0'') (Some ''2.0.0'') = Major"
    by (simp add: update_getUpdateType_eq parse_1_5_0 parse_2_0_0)
  then show ?thesis
    using getUpdateType_same by simp
qed

section \<open>The report summaries\<close>

lemma filter_partition_length:
  "length (filter (\<lambda>x. \<not> P x) xs) + length (filter P xs) = length xs"
  by (induction xs) auto

lemma check_partition:
  "cs_upToDate (generateReport results) + cs_outdated (generateReport results) =
   cs_total (generateReport results)"
  by (simp add: generateReport_def filter_partition_length)

lemma update_partition:
  "us_upToDate (generateUpdateReport updateResults) +
   us_hasUpdates (generateUpdateReport updateResults) =
   us_total (generateUpdateReport updateResults)"
  using filter_partition_length [of "\<lambda>r. res_recommendations r \<noteq> []" updateResults]
  by (simp add: generateUpdateReport_def Let_def)

lemma check_one_failed:
  "lookup = Rejected \<or> lookup = Fulfilled None \<Longrightarrow>
   \<exists>r. check_one dep lookup gv = Inr r \<and> \<not> chk_updateAvailable r \<and> chk_latestVersion r = None"
  by (auto simp: check_one_def Let_def)

lemma update_one_failed:
  "lookup = Rejected \<or> lookup = Fulfilled None \<Longrightarrow>
   \<exists>u. update_one dep lookup versions major_opt = Inr u \<and> res_recommendations u = [] \<and>
       res_latestVersion u = None"
  by (auto simp: update_one_def Let_def truthy_def)

lemma check_count_insert:
  "cs_upToDate (generateReport (rs1 @ r # rs2)) =
     (if chk_updateAvailable r then 0 else 1) + cs_upToDate (generateReport (rs1 @ rs2)) \<and>
   cs_outdated (generateReport (rs1 @ r # rs2)) =
     (if chk_updateAvailable r then 1 else 0) + cs_outdated (generateReport (rs1 @ rs2))"
  by (simp add: generateReport_def)

lemma update_count_insert:
  "us_upToDate (generateUpdateReport (us1 @ u # us2)) =
     (if res_recommendations u = [] then 1 else 0) + us_upToDate (generateUpdateReport (us1 @ us2)) \<and>
   us_hasUpdates (generateUpdateReport (us1 @ u # us2)) =
     (if res_recommendations u = [] then 0 else 1) + us_hasUpdates (generateUpdateReport (us1 @ us2))"
  by (simp add: generateUpdateReport_def Let_def)

text \<open>
  Claim C4. The counters of a summary partition the total: in the check report
  \<open>upToDate + outdated = total\<close>, in the update report \<open>upToDate + hasUpdates = total\<close>.
  A dependency whose registry lookup failed (the promise was rejected, or it yielded null)
  gets a result that is counted as up to date and not as outdated, in both reports.
\<close>

theorem summary_partition:
  "cs_upToDate (generateReport results) + cs_outdated (generateReport results) =
     cs_total (generateReport results) \<and>
   us_upToDate (generateUpdateReport updateResults) +
     us_hasUpdates (generateUpdateReport updateResults) =
     us_total (generateUpdateReport updateResults) \<and>
   (lookup = Rejected \<or> lookup = Fulfilled None \<longrightarrow>
      (\<exists>r. check_one dep lookup getVulnerabilities = Inr r \<and> \<not> chk_updateAvailable r \<and>
         cs_upToDate (generateReport (rs1 @ r # rs2)) =
           Suc (cs_upToDate (generateReport (rs1 @ rs2))) \<and>
         cs_outdated (generateReport (rs1 @ r # rs2)) =
           cs_outdated (generateReport (rs1 @ rs2))) \<and>
      (\<exists>u. update_one dep lookup versions major_opt = Inr u \<and> res_recommendations u = [] \<and>
         us_upToDate (generateUpdateReport (us1 @ u # us2)) =
           Suc (us_upToDate (generateUpdateReport (us1 @ us2))) \<and>
         us_hasUpdates (generateUpdateReport (us1 @ u # us2)) =
           us_hasUpdates (generateUpdateReport (us1 @ us2))))"
proof (intro conjI impI)
  show "cs_upToDate (generateReport results) + cs_outdated (generateReport results) =
     cs_total (generateReport results)"
    by (rule check_partition)
  show "us_upToDate (generateUpdateReport updateResults) +
     us_hasUpdates (generateUpdateReport updateResults) =
     us_total (generateUpdateReport updateResults)"
    by (rule update_partition)
next
  assume f: "lookup = Rejected \<or> lookup = Fulfilled None"
  from check_one_failed [OF f] obtain r
    where r: "check_one dep lookup getVulnerabilities = Inr r" "\<not> chk_updateAvailable r"
    by blast
  then show "\<exists>r. check_one dep lookup getVulnerabilities = Inr r \<and> \<not> chk_updateAvailable r \<and>
         cs_upToDate (generateReport (rs1 @ r # rs2)) =
           Suc (cs_upToDate (generateReport (rs1 @ rs2))) \<and>
         cs_outdated (generateReport (rs1 @ r # rs2)) =
           cs_outdated (generateReport (rs1 @ rs2))"
    using check_count_insert [of rs1 r rs2] by auto
next
  assume f: "lookup = Rejected \<or> lookup = Fulfilled None"
  from update_one_failed [OF f] obtain u
    where u: "update_one dep lookup versions major_opt = Inr u" "res_recommendations u = []"
    by blast
  then show "\<exists>u. update_one dep lookup versions major_opt = Inr u \<and> res_recommendations u = [] \<and>
         us_upToDate (generateUpdateReport (us1 @ u # us2)) =
           Suc (us_upToDate (generateUpdateReport (us1 @ us2))) \<and>
         us_hasUpdates (generateUpdateReport (us1 @ u # us2)) =
           us_hasUpdates (generateUpdateReport (us1 @ us2))"
    using update_count_insert [of us1 u us2] by auto
qed

theorem summary_partition_witness:
  "(\<exists>r. check_one lodash_dep Rejected (\<lambda>n v. []) = Inr r \<and> \<not> chk_updateAvailable r \<and>
        cs_upToDate (generateReport [r]) = 1 \<and> cs_outdated (generateReport [r]) = 0) \<and>
   (\<exists>u. update_one lodash_dep Rejected (Fulfilled [''4.17.21'']) False = Inr u \<and>
        res_recommendations u = [] \<and>
        us_upToDate (generateUpdateReport [u]) = 1 \<and> us_hasUpdates (generateUpdateReport [u]) = 0)"
  using summary_partition [of "[]" "[]" Rejected lodash_dep "\<lambda>n v. []" "[]" "[]"
      "Fulfilled [''4.17.21'']" False "[]" "[]"]
  by (simp add: generateReport_def generateUpdateReport_def)

section \<open>The classifier in both directions\<close>

lemma classify_valid:
  assumes "semver_parse (Some a) = Some x" and "semver_parse (Some b) = Some y"
  shows "update_getUpdateType (Some a) (Some b) =
           (if sv_major y > sv_major x then Major
            else if sv_minor y > sv_minor x then Minor
            else if sv_patch y > sv_patch x then Patch
            else NoUpdate)"
  by (simp add: update_getUpdateType_eq assms)

text \<open>
  Claim C6, amended. For valid versions \<open>a\<close> and \<open>b\<close>, neither direction of the classifier
  is \<open>'unknown'\<close>; both directions are \<open>'none'\<close> exactly when \<open>a\<close> and \<open>b\<close> have the same
  major, minor and patch numbers; when one direction yields an update bucket, the reversed
  direction never yields the same bucket, and it yields \<open>'none'\<close> exactly when no number of
  the one version exceeds the corresponding number of the other.
\<close>

theorem classify_reversed:
  assumes "semver_parse (Some a) = Some x" and "semver_parse (Some b) = Some y"
  shows "update_getUpdateType (Some a) (Some b) \<noteq> Unknown \<and>
    ((update_getUpdateType (Some a) (Some b) = NoUpdate \<and>
      update_getUpdateType (Some b) (Some a) = NoUpdate) \<longleftrightarrow>
     (sv_major x = sv_major y \<and> sv_minor x = sv_minor y \<and> sv_patch x = sv_patch y)) \<and>
    (update_getUpdateType (Some a) (Some b) \<in> {Major, Minor, Patch} \<longrightarrow>
     update_getUpdateType (Some b) (Some a) \<noteq> update_getUpdateType (Some a) (Some b)) \<and>
    (update_getUpdateType (Some b) (Some a) = NoUpdate \<longleftrightarrow>
     (sv_major x \<le> sv_major y \<and> sv_minor x \<le> sv_minor y \<and> sv_patch x \<le> sv_patch y))"
  unfolding classify_valid [OF assms] classify_valid [OF assms(2) assms(1)]
  by auto

theorem classify_reversed_witness:
  "update_getUpdateType (Some ''2.0.0'') (Some ''1.5.0'') = Minor \<and>
   update_getUpdateType (Some ''1.5.0'') (Some ''2.0.0'') \<noteq> Minor \<and>
   update_getUpdateType (Some ''1.5.0'') (Some ''2.0.0'') \<noteq> NoUpdate"
proof -
  have m: "update_getUpdateType (Some ''2.0.0'') (Some ''1.5.0'') = Minor"
    by (simp add: update_getUpdateType_eq parse_1_5_0 parse_2_0_0)
  show ?thesis
    using classify_reversed [OF parse_2_0_0 parse_1_5_0] by (simp add: m)
qed

text \<open>
  The claim as stated fails: from 2.0.0 to 1.5.0 the classifier says \<open>'minor'\<close>, and from
  1.5.0 to 2.0.0 it says \<open>'major'\<close>, so both directions yield an update bucket.
\<close>

theorem classify_reversed_counterexample:
  "semver_valid (Some ''2.0.0'') \<noteq> None \<and> semver_valid (Some ''1.5.0'') \<noteq> None \<and>
   update_getUpdateType (Some ''2.0.0'') (Some ''1.5.0'') = Minor \<and>
   update_getUpdateType (Some ''1.5.0'') (Some ''2.0.0'') = Major"
  by (simp add: update_getUpdateType_eq semver_valid_def parse_1_5_0 parse_2_0_0)

section \<open>The baseline of the check command\<close>

lemma gt_18_2_0: "semver_gt ''18.2.0'' ''0.0.0'' = Inr True"
  by code_simp

text \<open>
  Claim C10. In the check command, for a dependency whose cleaned version is absent and
  whose lookup yields a latest version, \<open>updateAvailable\<close> is the comparison of the latest
  version with the literal \<open>0.0.0\<close>. Whenever the latest version exceeds \<open>0.0.0\<close>, the
  result has \<open>updateAvailable\<close> true and update type \<open>'unknown'\<close>, and the summary counts it
  as outdated and not as up to date.
\<close>

theorem check_unresolved_baseline:
  assumes "clean (dep_range dep) = None" and "latest \<noteq> []"
  shows "check_one dep (Fulfilled (Some latest)) getVulnerabilities =
     (case semver_gt latest ''0.0.0'' of
        Inl e \<Rightarrow> Inl e
      | Inr newer \<Rightarrow>
          Inr \<lparr>chk_name = dep_name dep, chk_currentVersion = dep_version dep,
               chk_latestVersion = Some latest, chk_updateAvailable = newer,
               chk_updateType = (if newer then Some Unknown else None),
               chk_vulnerabilities = [], chk_dependencyType = dep_type dep,
               chk_range = dep_range dep\<rparr>) \<and>
   (semver_gt latest ''0.0.0'' = Inr True \<longrightarrow>
      (\<exists>r. check_one dep (Fulfilled (Some latest)) getVulnerabilities = Inr r \<and>
           chk_updateAvailable r \<and> chk_updateType r = Some Unknown \<and>
           cs_outdated (generateReport (rs1 @ r # rs2)) =
             Suc (cs_outdated (generateReport (rs1 @ rs2))) \<and>
           cs_upToDate (generateReport (rs1 @ r # rs2)) =
             cs_upToDate (generateReport (rs1 @ rs2))))"
proof -
  have u: "check_getUpdateType None (Some latest) = Unknown"
    by (simp add: check_getUpdateType_def truthy_def)
  have c: "check_one dep (Fulfilled (Some latest)) getVulnerabilities =
     (case semver_gt latest ''0.0.0'' of
        Inl e \<Rightarrow> Inl e
      | Inr newer \<Rightarrow>
          Inr \<lparr>chk_name = dep_name dep, chk_currentVersion = dep_version dep,
               chk_latestVersion = Some latest, chk_updateAvailable = newer,
               chk_updateType = (if newer then Some Unknown else None),
               chk_vulnerabilities = [], chk_dependencyType = dep_type dep,
               chk_range = dep_range dep\<rparr>)"
    using assms by (simp add: check_one_def or_default_def u split: sum.splits)
  show ?thesis
    unfolding c using check_count_insert by (auto simp: generateReport_def)
qed

theorem check_unresolved_baseline_witness:
  "clean (dep_range caret_dep) = None \<and> semver_gt ''18.2.0'' ''0.0.0'' = Inr True \<and>
   (\<exists>r. check_one caret_dep (Fulfilled (Some ''18.2.0'')) (\<lambda>n v. []) = Inr r \<and>
        chk_updateAvailable r \<and> chk_updateType r = Some Unknown \<and>
        cs_outdated (generateReport [r]) = 1 \<and> cs_upToDate (generateReport [r]) = 0)"
proof -
  have c: "clean (dep_range caret_dep) = None"
    by (simp add: caret_dep_def caret_range_def)
  have n: "''18.2.0'' \<noteq> []" by simp
  show ?thesis
    using check_unresolved_baseline [OF c n, of "\<lambda>n v. []" "[]" "[]"] c gt_18_2_0
    by (simp add: generateReport_def)
qed

section \<open>Decimal numerals and rounding\<close>

lemma digit_val_int: "digit_val c = int (of_char c) - 48"
  by (simp add: digit_val_def of_nat_of_char)

lemma digit_val_range: "is_digit c \<Longrightarrow> 0 \<le> digit_val c \<and> digit_val c < 10"
  by (auto simp: is_digit_def digit_val_int)

lemma digit_char_val: "is_digit c \<Longrightarrow> digit_char (nat (digit_val c)) = c"
proof -
  assume d: "is_digit c"
  then have "48 + nat (digit_val c) = (of_char c :: nat)"
    by (auto simp: is_digit_def digit_val_int)
  then show ?thesis
    by (simp add: digit_char_def)
qed

lemma digit_val_zero: "is_digit c \<Longrightarrow> digit_val c = 0 \<Longrightarrow> c = CHR ''0''"
proof -
  assume "is_digit c" "digit_val c = 0"
  then have "(of_char c :: nat) = 48"
    by (auto simp: is_digit_def digit_val_int)
  then have "(of_char c :: nat) = of_char CHR ''0''" by simp
  then show ?thesis by (rule of_char_eqI)
qed

lemma digits_value_snoc: "digits_value (ds @ [c]) = 10 * digits_value ds + digit_val c"
  by (simp add: digits_value_def)

lemma foldl_digits_ge:
  "list_all is_digit ds \<Longrightarrow> 0 \<le> a \<Longrightarrow> a \<le> foldl (\<lambda>a c. 10 * a + digit_val c) a ds"
proof (induction ds arbitrary: a)
  case Nil
  then show ?case by simp
next
  case (Cons d ds)
  then have "0 \<le> 10 * a + digit_val d" "a \<le> 10 * a + digit_val d"
    using digit_val_range [of d] by auto
  moreover have "10 * a + digit_val d \<le> foldl (\<lambda>a c. 10 * a + digit_val c) (10 * a + digit_val d) ds"
    using Cons by (intro Cons.IH) (use digit_val_range [of d] in auto)
  ultimately show ?case by simp
qed

lemma digits_value_nonneg: "list_all is_digit ds \<Longrightarrow> 0 \<le> digits_value ds"
  using foldl_digits_ge [of ds 0] by (simp add: digits_value_def)

lemma digits_value_pos:
  assumes "list_all is_digit ds" and "ds \<noteq> []" and "hd ds \<noteq> CHR ''0''"
  shows "0 < digits_value ds"
proof (cases ds)
  case Nil
  with assms show ?thesis by simp
next
  case (Cons d ds')
  with assms have d: "is_digit d" "d \<noteq> CHR ''0''" "list_all is_digit ds'" by auto
  then have "0 < digit_val d"
    using digit_val_zero [of d] digit_val_range [of d] by fastforce
  moreover have "digit_val d \<le> foldl (\<lambda>a c. 10 * a + digit_val c) (digit_val d) ds'"
    using d digit_val_range [of d] by (intro foldl_digits_ge) auto
  ultimately show ?thesis
    by (simp add: Cons digits_value_def)
qed

lemma digits_of_nat_small: "n < 10 \<Longrightarrow> digits_of_nat n = [digit_char n]"
  by (simp add: digits_of_nat.simps)

lemma digits_of_nat_large:
  "10 \<le> n \<Longrightarrow> digits_of_nat n = digits_of_nat (n div 10) @ [digit_char (n mod 10)]"
  by (subst digits_of_nat.simps) simp

lemma digits_of_nat_nonempty: "digits_of_nat n \<noteq> []"
  by (subst digits_of_nat.simps) simp

lemma digits_roundtrip:
  "numeric_identifier ds \<Longrightarrow> js_string_of_number (digits_value ds) = ds"
proof (induction ds rule: rev_induct)
  case Nil
  then show ?case by (simp add: numeric_identifier_def)
next
  case (snoc c ds)
  then have c: "is_digit c" and all: "list_all is_digit ds"
    by (auto simp: numeric_identifier_def)
  show ?case
  proof (cases "ds = []")
    case True
    show ?thesis
    proof -
      have "nat (digit_val c) < 10" using digit_val_range [OF c] by linarith
      then show ?thesis
        using True digit_char_val [OF c]
        by (simp add: js_string_of_number_def digits_value_def digits_of_nat_small)
    qed
  next
    case False
    with snoc.prems have h: "hd ds \<noteq> CHR ''0''"
      by (auto simp: numeric_identifier_def)
    with False all have n: "numeric_identifier ds"
      by (simp add: numeric_identifier_def)
    have p: "0 < digits_value ds"
      using digits_value_pos [OF all False h] .
    define v where "v = digits_value ds"
    define d where "d = digit_val c"
    have r: "0 \<le> d" "d < 10" using c digit_val_range [of c] by (auto simp: d_def)
    have v: "0 < v" using p by (simp add: v_def)
    have "nat (10 * v + d) = 10 * nat v + nat d" using r v by (simp add: nat_add_distrib nat_mult_distrib)
    moreover have "10 \<le> 10 * nat v + nat d" using v by auto
    moreover have "(10 * nat v + nat d) div 10 = nat v" using r by auto
    moreover have "(10 * nat v + nat d) mod 10 = nat d" using r by auto
    ultimately have "digits_of_nat (nat (10 * v + d)) = digits_of_nat (nat v) @ [digit_char (nat d)]"
      using digits_of_nat_large [of "10 * nat v + nat d"] by simp
    then show ?thesis
      using snoc.IH [OF n] digit_char_val [OF c]
      by (simp add: js_string_of_number_def digits_value_snoc v_def d_def)
  qed
qed

lemma js_number_exact: "n < 2 ^ 53 \<Longrightarrow> js_number n = n"
  by (simp add: js_number_def)

lemma js_number_large:
  assumes "2 ^ 53 \<le> n"
  shows "2 ^ 53 \<le> js_number n"
proof -
  have pos: "0 < n" using assms by (simp add: order.strict_trans2)
  define b where "b = nat (bitlen n)"
  define sh where "sh = b - 53"
  from bitlen_bounds [OF pos] have lo: "2 ^ nat (bitlen n - 1) \<le> n" and hi: "n < 2 ^ b"
    by (auto simp: b_def)
  have "(2::int) ^ 53 < 2 ^ b" using assms hi by linarith
  then have b53: "53 < b"
    by (rule power_less_imp_less_exp [rotated]) simp
  then have sh1: "1 \<le> sh" and bsh: "b = 53 + sh" by (auto simp: sh_def)
  have "nat (bitlen n - 1) = 52 + sh"
    using bsh by (simp add: b_def nat_diff_distrib')
  with lo have lo': "(2::int) ^ 52 * 2 ^ sh \<le> n" by (simp add: power_add)
  define q where "q = n div 2 ^ sh"
  have q: "2 ^ 52 \<le> q"
  proof -
    have "(2 ^ 52 * 2 ^ sh) div 2 ^ sh \<le> n div (2 ^ sh :: int)"
      using lo' by (intro zdiv_mono1) auto
    then show ?thesis by (simp add: q_def)
  qed
  have two: "(2::int) \<le> 2 ^ sh" using sh1
    by (metis power_increasing one_le_numeral power_one_right)
  have "(2::int) ^ 53 = 2 ^ 52 * 2" by simp
  also have "\<dots> \<le> q * 2 ^ sh" using q two by (intro mult_mono) auto
  finally have a: "2 ^ 53 \<le> q * 2 ^ sh" .
  have "q * 2 ^ sh \<le> (q + 1) * 2 ^ sh" by (simp add: distrib_right)
  with a have a': "2 ^ 53 \<le> (q + 1) * 2 ^ sh" by linarith
  have "js_number n = (if 2 ^ (sh - 1) < n mod 2 ^ sh \<or> (n mod 2 ^ sh = 2 ^ (sh - 1) \<and> odd q) then q + 1 else q) * 2 ^ sh"
    using assms by (simp add: js_number_def Let_def sh_def b_def q_def)
  then show ?thesis using a a' by auto
qed

lemma MAX_SAFE_lt: "MAX_SAFE_INTEGER < 2 ^ 53"
  by (simp add: MAX_SAFE_INTEGER_def)

lemma js_number_safe: "js_number n \<le> MAX_SAFE_INTEGER \<Longrightarrow> js_number n = n"
  using js_number_large [of n] js_number_exact [of n] MAX_SAFE_lt by linarith

section \<open>Splitting, joining and trimming\<close>

lemma split_on_nonempty: "split_on c s \<noteq> []"
  by (induction s) (auto split: list.splits)

lemma join_Cons_Cons: "join c ((x # w) # ws) = x # join c (w # ws)"
  by (cases ws) auto

lemma join_Nil_Cons: "ws \<noteq> [] \<Longrightarrow> join c ([] # ws) = c # join c ws"
  by (cases ws) auto

lemma join_split: "join c (split_on c s) = s"
proof (induction s)
  case Nil
  then show ?case by simp
next
  case (Cons x xs)
  show ?case
  proof (cases "x = c")
    case True
    then show ?thesis
      using Cons split_on_nonempty [of c xs] by (simp add: join_Nil_Cons)
  next
    case False
    obtain w ws where w: "split_on c xs = w # ws"
      using split_on_nonempty [of c xs] by (cases "split_on c xs") auto
    with False Cons show ?thesis
      by (simp add: join_Cons_Cons)
  qed
qed

lemma set_join: "set (join c ws) \<subseteq> insert c (\<Union> (set ` set ws))"
  by (induction c ws rule: join.induct) auto

lemma before_after:
  "before_first c s @ (case after_first c s of None \<Rightarrow> [] | Some r \<Rightarrow> c # r) = s"
proof (cases "dropWhile (\<lambda>x. x \<noteq> c) s")
  case Nil
  have t: "takeWhile (\<lambda>x. x \<noteq> c) s = s"
    using takeWhile_dropWhile_id [of "\<lambda>x. x \<noteq> c" s] unfolding Nil by simp
  show ?thesis
    unfolding before_first_def after_first_def Nil t by simp
next
  case (Cons y ys)
  then have "y = c"
    using hd_dropWhile [of "\<lambda>x. x \<noteq> c" s] by auto
  with Cons show ?thesis
    using takeWhile_dropWhile_id [of "\<lambda>x. x \<noteq> c" s]
    by (simp add: before_first_def after_first_def)
qed

lemma before_first_idem: "before_first c (before_first c s) = before_first c s"
  by (simp add: before_first_def)

lemma after_before_first: "after_first c (before_first c s) = None"
proof -
  have "\<forall>x \<in> set (takeWhile (\<lambda>x. x \<noteq> c) s). x \<noteq> c"
    using set_takeWhileD by fastforce
  then have d: "dropWhile (\<lambda>x. x \<noteq> c) (takeWhile (\<lambda>x. x \<noteq> c) s) = []"
    by (simp add: dropWhile_eq_Nil_conv)
  show ?thesis
    unfolding before_first_def after_first_def d by simp
qed

lemma length_before_first: "length (before_first c s) \<le> length s"
  by (simp add: before_first_def length_takeWhile_le)

lemma no_space_dropWhile: "list_all (\<lambda>c. \<not> P c) xs \<Longrightarrow> dropWhile P xs = xs"
  by (cases xs) auto

lemma trim_no_space: "list_all (\<lambda>c. \<not> js_whitespace c) s \<Longrightarrow> trim s = s"
  by (simp add: trim_def no_space_dropWhile list_all_iff)

lemma length_trim: "length (trim s) \<le> length s"
proof -
  have "length (dropWhile js_whitespace (rev (dropWhile js_whitespace s))) \<le>
        length (rev (dropWhile js_whitespace s))"
    by (rule length_dropWhile_le)
  also have "\<dots> \<le> length s"
    by (simp add: length_dropWhile_le)
  finally show ?thesis by (simp add: trim_def)
qed

lemma length_strip_v: "length (strip_v s) \<le> length s"
  by (simp add: strip_v_def split: list.splits)

lemma version_char_no_space: "letterdashnumber c \<or> c = CHR ''.'' \<Longrightarrow> \<not> js_whitespace c"
  by (auto simp: letterdashnumber_def is_letter_def is_digit_def js_whitespace_def)

lemma digit_letterdashnumber: "is_digit c \<Longrightarrow> letterdashnumber c"
  by (simp add: letterdashnumber_def)

lemma numeric_identifier_chars: "numeric_identifier s \<Longrightarrow> list_all letterdashnumber s"
  by (auto simp: numeric_identifier_def list_all_iff digit_letterdashnumber)

lemma prerelease_identifier_chars: "prerelease_identifier s \<Longrightarrow> list_all letterdashnumber s"
  by (auto simp: prerelease_identifier_def nonnumeric_identifier_def numeric_identifier_chars)

lemma prerelease_chars:
  assumes "list_all prerelease_identifier (split_on CHR ''.'' p)"
  shows "list_all (\<lambda>c. letterdashnumber c \<or> c = CHR ''.'') p"
proof -
  have "set p \<subseteq> insert CHR ''.'' (\<Union> (set ` set (split_on CHR ''.'' p)))"
    using set_join [of "CHR ''.''" "split_on CHR ''.'' p"] by (simp add: join_split)
  moreover have "\<forall>w \<in> set (split_on CHR ''.'' p). \<forall>c \<in> set w. letterdashnumber c"
    using assms prerelease_identifier_chars by (auto simp: list_all_iff)
  ultimately show ?thesis
    by (auto simp: list_all_iff)
qed

section \<open>The strict version grammar\<close>

lemma match_plainD:
  assumes "match_plain body = Some m"
  shows "split_on CHR ''.'' (before_first CHR ''-'' (before_first CHR ''+'' body)) = [m1 m, m2 m, m3 m]"
    and "numeric_identifier (m1 m)" and "numeric_identifier (m2 m)" and "numeric_identifier (m3 m)"
    and "m4 m = after_first CHR ''-'' (before_first CHR ''+'' body)"
    and "m5 m = after_first CHR ''+'' body"
    and "case m4 m of None \<Rightarrow> True | Some p \<Rightarrow> list_all prerelease_identifier (split_on CHR ''.'' p)"
  using assms
  by (auto simp: match_plain_def Let_def split: list.splits if_splits)

lemma match_plain_mainv:
  assumes "match_plain body = Some m"
  shows "before_first CHR ''-'' (before_first CHR ''+'' body) =
         m1 m @ CHR ''.'' # m2 m @ CHR ''.'' # m3 m"
  using join_split [of "CHR ''.''" "before_first CHR ''-'' (before_first CHR ''+'' body)"]
  unfolding match_plainD(1) [OF assms] by simp

lemma match_plain_core:
  assumes "match_plain body = Some m"
  shows "before_first CHR ''+'' body =
         m1 m @ CHR ''.'' # m2 m @ CHR ''.'' # m3 m @
         (case m4 m of None \<Rightarrow> [] | Some p \<Rightarrow> CHR ''-'' # p)"
  using before_after [of "CHR ''-''" "before_first CHR ''+'' body"]
  unfolding match_plain_mainv [OF assms] match_plainD(5) [OF assms, symmetric] by simp

lemma match_plain_again:
  assumes "match_plain body = Some m"
  shows "match_plain (before_first CHR ''+'' body) = Some (m\<lparr>m5 := None\<rparr>)"
  using match_plainD [OF assms]
  by (simp add: match_plain_def before_first_idem after_before_first)


lemma match_plain_core_chars:
  assumes "match_plain body = Some m"
  shows "list_all (\<lambda>c. \<not> js_whitespace c) (before_first CHR ''+'' body)"
proof -
  have a: "list_all (\<lambda>c. letterdashnumber c \<or> c = CHR ''.'') (m1 m)"
    "list_all (\<lambda>c. letterdashnumber c \<or> c = CHR ''.'') (m2 m)"
    "list_all (\<lambda>c. letterdashnumber c \<or> c = CHR ''.'') (m3 m)"
    using match_plainD(2-4) [OF assms] numeric_identifier_chars
    by (auto simp: list_all_iff)
  have b: "list_all (\<lambda>c. letterdashnumber c \<or> c = CHR ''.'')
             (case m4 m of None \<Rightarrow> [] | Some p \<Rightarrow> CHR ''-'' # p)"
    using match_plainD(7) [OF assms] prerelease_chars
    by (auto simp: letterdashnumber_def split: option.splits)
  have "list_all (\<lambda>c. letterdashnumber c \<or> c = CHR ''.'') (before_first CHR ''+'' body)"
    unfolding match_plain_core [OF assms] using a b by simp
  then show ?thesis
    using version_char_no_space by (auto simp: list_all_iff)
qed

lemma numeric_identifier_hd: "numeric_identifier s \<Longrightarrow> \<exists>d ds. s = d # ds \<and> is_digit d"
  by (cases s) (auto simp: numeric_identifier_def)

lemma strip_v_digit: "is_digit d \<Longrightarrow> strip_v (d # ds) = d # ds"
  by (auto simp: strip_v_def is_digit_def)

lemma match_plain_strip_v:
  assumes "match_plain body = Some m"
  shows "strip_v (before_first CHR ''+'' body) = before_first CHR ''+'' body"
proof -
  obtain d ds where "m1 m = d # ds" "is_digit d"
    using numeric_identifier_hd [OF match_plainD(2) [OF assms]] by blast
  then show ?thesis
    unfolding match_plain_core [OF assms] by (simp add: strip_v_digit)
qed

text \<open>The version string of a parsed version is the input without the surrounding
  whitespace, the leading \<open>v\<close> and the build metadata.\<close>

lemma match_FULL_core:
  assumes "match_FULL t = Some m"
  shows "match_FULL (trim (before_first CHR ''+'' (strip_v t))) = Some (m\<lparr>m5 := None\<rparr>)"
  using assms match_plain_again [of "strip_v t" m] match_plain_strip_v [of "strip_v t" m]
    trim_no_space [OF match_plain_core_chars [of "strip_v t" m]]
  by (simp add: match_FULL_def)

lemma ident_string_numberify:
  assumes "prerelease_identifier i"
  shows "ident_string (numberify i) = i"
proof (cases "i \<noteq> [] \<and> list_all is_digit i \<and>
         0 \<le> js_number (digits_value i) \<and> js_number (digits_value i) < MAX_SAFE_INTEGER")
  case True
  then have n: "numeric_identifier i"
    using assms by (auto simp: prerelease_identifier_def nonnumeric_identifier_def)
  have "js_number (digits_value i) = digits_value i"
    using True js_number_safe [of "digits_value i"] by simp
  with True show ?thesis
    by (simp add: numberify_def digits_roundtrip [OF n])
next
  case False
  then show ?thesis
    by (auto simp: numberify_def)
qed

lemma join_map_numberify:
  assumes "list_all prerelease_identifier ws"
  shows "map ident_string (map numberify ws) = ws"
  using assms by (induction ws) (auto simp: ident_string_numberify)

section \<open>Parsing a formatted version again\<close>

lemma semver_of_match_no_build:
  "semver_of_match (m\<lparr>m5 := None\<rparr>) =
     (case semver_of_match m of Inl e \<Rightarrow> Inl e | Inr s \<Rightarrow> Inr (s\<lparr>sv_build := []\<rparr>))"
  by (simp add: semver_of_match_def Let_def)

lemma semver_of_matchD:
  assumes "semver_of_match m = Inr s"
  shows "sv_major s = js_number (digits_value (m1 m))"
    and "sv_minor s = js_number (digits_value (m2 m))"
    and "sv_patch s = js_number (digits_value (m3 m))"
    and "sv_major s \<le> MAX_SAFE_INTEGER" and "sv_minor s \<le> MAX_SAFE_INTEGER"
    and "sv_patch s \<le> MAX_SAFE_INTEGER"
    and "sv_prerelease s =
           (case m4 m of None \<Rightarrow> [] | Some p \<Rightarrow> map numberify (split_on CHR ''.'' p))"
    and "sv_version s = format (sv_major s) (sv_minor s) (sv_patch s) (sv_prerelease s)"
  using assms
  by (auto simp: semver_of_match_def Let_def split: if_splits)

lemma semver_of_match_version:
  assumes "match_plain body = Some m" and "semver_of_match m = Inr s"
  shows "sv_version s = before_first CHR ''+'' body"
proof -
  note d = semver_of_matchD [OF assms(2)]
  note n = match_plainD [OF assms(1)]
  have ma: "js_string_of_number (sv_major s) = m1 m"
    using d(1,4) js_number_safe [of "digits_value (m1 m)"] digits_roundtrip [OF n(2)] by simp
  have mi: "js_string_of_number (sv_minor s) = m2 m"
    using d(2,5) js_number_safe [of "digits_value (m2 m)"] digits_roundtrip [OF n(3)] by simp
  have pa: "js_string_of_number (sv_patch s) = m3 m"
    using d(3,6) js_number_safe [of "digits_value (m3 m)"] digits_roundtrip [OF n(4)] by simp
  have pre: "(if sv_prerelease s = [] then []
              else CHR ''-'' # join CHR ''.'' (map ident_string (sv_prerelease s))) =
             (case m4 m of None \<Rightarrow> [] | Some p \<Rightarrow> CHR ''-'' # p)"
  proof (cases "m4 m")
    case None
    then show ?thesis using d(7) by simp
  next
    case (Some p)
    then have l: "list_all prerelease_identifier (split_on CHR ''.'' p)"
      using n(7) by simp
    have "sv_prerelease s = map numberify (split_on CHR ''.'' p)"
      using d(7) Some by simp
    then show ?thesis
      using Some split_on_nonempty [of "CHR ''.''" p]
      using join_map_numberify [OF l] by (simp add: join_split del: map_map)
  qed
  show ?thesis
    unfolding d(8) format_def ma mi pa pre match_plain_core [OF assms(1)] by simp
qed

lemma new_SemVerD:
  assumes "new_SemVer v = Inr s"
  obtains m where "int (length v) \<le> MAX_LENGTH" and "match_FULL (trim v) = Some m"
    and "semver_of_match m = Inr s"
  using assms
  by (auto simp: new_SemVer_def split: if_splits option.splits)

lemma new_SemVer_version:
  assumes "new_SemVer v = Inr s"
  shows "sv_version s = before_first CHR ''+'' (strip_v (trim v))"
proof -
  from new_SemVerD [OF assms] obtain m where
    m: "match_FULL (trim v) = Some m" "semver_of_match m = Inr s" by blast
  then show ?thesis
    using semver_of_match_version [of "strip_v (trim v)" m s] by (simp add: match_FULL_def)
qed

text \<open>A version string that the library produced parses again, to the same version
  without build metadata.\<close>

lemma new_SemVer_roundtrip:
  assumes "new_SemVer v = Inr s"
  shows "new_SemVer (sv_version s) = Inr (s\<lparr>sv_build := []\<rparr>)"
proof -
  from new_SemVerD [OF assms] obtain m where
    len: "int (length v) \<le> MAX_LENGTH" and m: "match_FULL (trim v) = Some m"
    and s: "semver_of_match m = Inr s" by blast
  define r where "r = before_first CHR ''+'' (strip_v (trim v))"
  have v: "sv_version s = r"
    using new_SemVer_version [OF assms] by (simp add: r_def)
  have "length r \<le> length v"
    unfolding r_def
    using length_before_first [of "CHR ''+''" "strip_v (trim v)"] length_strip_v [of "trim v"]
      length_trim [of v] by linarith
  with len have l: "\<not> int (length r) > MAX_LENGTH" by simp
  have "match_FULL (trim r) = Some (m\<lparr>m5 := None\<rparr>)"
    unfolding r_def by (rule match_FULL_core [OF m])
  then have "new_SemVer r = Inr (s\<lparr>sv_build := []\<rparr>)"
    using l s by (simp add: new_SemVer_def semver_of_match_no_build)
  then show ?thesis by (simp add: v)
qed

lemma sv_version_nonempty:
  assumes "new_SemVer v = Inr s"
  shows "sv_version s \<noteq> []"
proof -
  from new_SemVerD [OF assms] obtain m where "semver_of_match m = Inr s" by blast
  from semver_of_matchD(8) [OF this] show ?thesis
    by (simp add: format_def js_string_of_number_def digits_of_nat_nonempty)
qed

lemma semver_valid_version:
  assumes "semver_parse (Some v) = Some s"
  shows "semver_valid (Some (sv_version s)) = Some (sv_version s)"
    and "semver_major (sv_version s) = Inr (sv_major s)"
    and "semver_minor (sv_version s) = Inr (sv_minor s)"
    and "semver_patch (sv_version s) = Inr (sv_patch s)"
    and "sv_version s \<noteq> []"
proof -
  from assms have n: "new_SemVer v = Inr s"
    by (auto simp: semver_parse_def split: sum.splits)
  note r = new_SemVer_roundtrip [OF n]
  show "semver_valid (Some (sv_version s)) = Some (sv_version s)"
    by (simp add: semver_valid_def semver_parse_def r)
  show "semver_major (sv_version s) = Inr (sv_major s)"
    by (simp add: semver_major_def r)
  show "semver_minor (sv_version s) = Inr (sv_minor s)"
    by (simp add: semver_minor_def r)
  show "semver_patch (sv_version s) = Inr (sv_patch s)"
    by (simp add: semver_patch_def r)
  show "sv_version s \<noteq> []"
    by (rule sv_version_nonempty [OF n])
qed

section \<open>The version range analyzer\<close>

lemma semver_clean_string:
  "semver_clean (JStr v) = Inr (map_option sv_version (semver_parse (Some (trim_replace v))))"
  by (simp add: semver_clean_def split: option.splits)

lemma semver_clean_not_string:
  "(\<forall>s. version \<noteq> JStr s) \<Longrightarrow> semver_clean version = Inl TypeError"
  by (cases version) (auto simp: semver_clean_def)

lemma semver_valid_None: "semver_valid None = None"
  by (simp add: semver_valid_def semver_parse_def)

lemma if_valid_None: "if_valid None f = Inr None"
  by (simp add: if_valid_def)

lemma if_valid_Some: "c \<noteq> [] \<Longrightarrow> f c = Inr n \<Longrightarrow> if_valid (Some c) f = Inr (Some n)"
  by (simp add: if_valid_def)

text \<open>On a string, \<open>parseVersionRange\<close> returns, and the result is determined by the parse
  of the cleaned string and by \<open>validRange\<close>.\<close>

lemma parseVersionRange_string:
  "parseVersionRange validRange (JStr v) =
     Inr \<lparr>original = JStr v,
          clean = map_option sv_version (semver_parse (Some (trim_replace v))),
          valid = map_option sv_version (semver_parse (Some (trim_replace v))),
          range' = validRange (JStr v),
          isExact = (semver_parse (Some (trim_replace v)) \<noteq> None),
          isRange = (validRange (JStr v) \<noteq> None \<and> semver_parse (Some (trim_replace v)) = None),
          major = map_option sv_major (semver_parse (Some (trim_replace v))),
          minor = map_option sv_minor (semver_parse (Some (trim_replace v))),
          patch = map_option sv_patch (semver_parse (Some (trim_replace v)))\<rparr>"
proof (cases "semver_parse (Some (trim_replace v))")
  case None
  then show ?thesis
    by (simp add: parseVersionRange_def semver_clean_string semver_valid_None if_valid_None
        Let_def)
next
  case (Some s)
  note f = semver_valid_version [OF Some]
  have "if_valid (Some (sv_version s)) semver_major = Inr (Some (sv_major s))"
    "if_valid (Some (sv_version s)) semver_minor = Inr (Some (sv_minor s))"
    "if_valid (Some (sv_version s)) semver_patch = Inr (Some (sv_patch s))"
    using f by (simp_all add: if_valid_Some)
  then show ?thesis
    using Some f(1) by (simp add: parseVersionRange_def semver_clean_string Let_def)
qed

lemma parseVersionRange_not_string:
  "(\<forall>s. version \<noteq> JStr s) \<Longrightarrow> parseVersionRange validRange version = Inl TypeError"
  by (simp add: parseVersionRange_def semver_clean_not_string)

lemma clean_4_17_20:
  "semver_parse (Some (trim_replace ''4.17.20'')) =
     Some \<lparr>sv_major = 4, sv_minor = 17, sv_patch = 20, sv_prerelease = [], sv_build = [],
           sv_version = ''4.17.20''\<rparr>"
  by code_simp

lemma clean_caret: "semver_parse (Some (trim_replace ''^1.2.0'')) = None"
  by code_simp

lemma clean_latest: "semver_parse (Some (trim_replace ''latest'')) = None"
  by code_simp

text \<open>
  Claim C3. For every version string \<open>v\<close>, \<open>parseVersionRange\<close> returns a record in which
  \<open>isExact\<close> and \<open>isRange\<close> are never both true; both are false exactly when \<open>v\<close> cleans
  to no strict version and is no valid range; and the resolved exact version (\<open>clean\<close>, and
  \<open>valid\<close>, which equals it) and each of \<open>major\<close>, \<open>minor\<close> and \<open>patch\<close> is present exactly
  when \<open>isExact\<close> is true, the three numbers being those of the resolved version.
\<close>

theorem parseVersionRange_invariant:
  "\<exists>info. parseVersionRange validRange (JStr v) = Inr info \<and>
     \<not> (isExact info \<and> isRange info) \<and>
     ((\<not> isExact info \<and> \<not> isRange info) \<longleftrightarrow>
        (semver_clean (JStr v) = Inr None \<and> validRange (JStr v) = None)) \<and>
     (isExact info \<longleftrightarrow> clean info \<noteq> None) \<and>
     (isExact info \<longleftrightarrow> valid info \<noteq> None) \<and>
     (isExact info \<longleftrightarrow> major info \<noteq> None) \<and>
     (isExact info \<longleftrightarrow> minor info \<noteq> None) \<and>
     (isExact info \<longleftrightarrow> patch info \<noteq> None) \<and>
     semver_clean (JStr v) = Inr (clean info) \<and>
     semver_valid (clean info) = clean info \<and>
     major info = map_option sv_major (semver_parse (clean info)) \<and>
     minor info = map_option sv_minor (semver_parse (clean info)) \<and>
     patch info = map_option sv_patch (semver_parse (clean info))"
proof (cases "semver_parse (Some (trim_replace v))")
  case None
  then show ?thesis
    by (simp add: parseVersionRange_string semver_clean_string semver_valid_None
        semver_parse_def)
next
  case (Some s)
  from semver_valid_version(1) [OF Some]
  obtain s' where s': "semver_parse (Some (sv_version s)) = Some s'" "sv_version s' = sv_version s"
    by (auto simp: semver_valid_def split: option.splits)
  from semver_valid_version(2-4) [OF Some] s'(1)
  have "sv_major s' = sv_major s" "sv_minor s' = sv_minor s" "sv_patch s' = sv_patch s"
    by (auto simp: semver_major_def semver_minor_def semver_patch_def semver_parse_def
        split: sum.splits)
  then show ?thesis
    using Some s' semver_valid_version(1) [OF Some]
    by (simp add: parseVersionRange_string semver_clean_string)
qed

theorem parseVersionRange_invariant_witness:
  "(\<exists>info. parseVersionRange (\<lambda>x. Some ''4.17.20'') (JStr ''4.17.20'') = Inr info \<and>
      isExact info \<and> \<not> isRange info \<and> clean info = Some ''4.17.20'' \<and>
      major info = Some 4 \<and> minor info = Some 17 \<and> patch info = Some 20)"
proof -
  have c: "semver_clean (JStr ''4.17.20'') = Inr (Some ''4.17.20'')"
    by (simp add: semver_clean_string clean_4_17_20)
  from parseVersionRange_invariant [of "\<lambda>x. Some ''4.17.20''" "''4.17.20''"]
  obtain info where i: "parseVersionRange (\<lambda>x. Some ''4.17.20'') (JStr ''4.17.20'') = Inr info"
    "\<not> (isExact info \<and> isRange info)" "isExact info \<longleftrightarrow> clean info \<noteq> None"
    "semver_clean (JStr ''4.17.20'') = Inr (clean info)"
    "major info = map_option sv_major (semver_parse (clean info))"
    "minor info = map_option sv_minor (semver_parse (clean info))"
    "patch info = map_option sv_patch (semver_parse (clean info))"
    by blast
  from i(4) c have "clean info = Some ''4.17.20''" by simp
  with i show ?thesis
    by (auto simp: parse_4_17_20)
qed

text \<open>
  Claim C8. \<open>parseVersionRange\<close> is a function of the version string (and of the library's
  \<open>validRange\<close>) that returns a record for every string and never throws: the calls of
  \<open>semver.major\<close>, \<open>minor\<close> and \<open>patch\<close>, which throw on an invalid version, are only made
  on a version string that parses. A string that is neither a version nor a range yields
  the record with \<open>isExact\<close> and \<open>isRange\<close> false and \<open>major\<close>, \<open>minor\<close>, \<open>patch\<close> absent.
\<close>

theorem parseVersionRange_total:
  "\<exists>info. parseVersionRange validRange (JStr v) = Inr info \<and>
     (semver_clean (JStr v) = Inr None \<and> validRange (JStr v) = None \<longrightarrow>
        \<not> isExact info \<and> \<not> isRange info \<and> clean info = None \<and> valid info = None \<and>
        major info = None \<and> minor info = None \<and> patch info = None)"
  by (simp add: parseVersionRange_string semver_clean_string)

theorem parseVersionRange_total_witness:
  "semver_clean (JStr ''latest'') = Inr None \<and>
   (\<exists>info. parseVersionRange (\<lambda>x. None) (JStr ''latest'') = Inr info \<and>
      \<not> isExact info \<and> \<not> isRange info \<and>
      major info = None \<and> minor info = None \<and> patch info = None)"
proof -
  have c: "semver_clean (JStr ''latest'') = Inr None"
    by (simp add: semver_clean_string clean_latest)
  from parseVersionRange_total [of "\<lambda>x. None" "''latest''"] c show ?thesis
    by auto
qed

section \<open>The dependency extractor\<close>

lemma map_of_rev_Cons:
  "map_of (rev ((k, v) # es)) n =
     (case map_of (rev es) n of Some w \<Rightarrow> Some w | None \<Rightarrow> if n = k then Some v else None)"
  by (simp add: map_add_def split: option.splits)

lemma extract_entries_distinct:
  "extract_entries validRange t es m = Inr m' \<Longrightarrow> distinct (map fst m) \<Longrightarrow>
   distinct (map fst m')"
proof (induction es arbitrary: m)
  case Nil
  then show ?case by simp
next
  case (Cons e es)
  obtain k v where e: "e = (k, v)" by (cases e)
  from Cons.prems(1) obtain r where
    r: "parseVersionRange validRange v = Inr r"
    and rest: "extract_entries validRange t es
       (AList.update k \<lparr>dep_name = k, dep_version = v, dep_type = t, dep_range = r\<rparr> m) = Inr m'"
    by (auto simp: e split: sum.splits)
  show ?case
    by (rule Cons.IH [OF rest]) (simp add: distinct_update Cons.prems(2))
qed

lemma extract_entries_lookup:
  "extract_entries validRange t es m = Inr m' \<Longrightarrow>
   (case map_of (rev es) n of
      None \<Rightarrow> map_of m' n = map_of m n
    | Some v \<Rightarrow> \<exists>r. parseVersionRange validRange v = Inr r \<and>
        map_of m' n = Some \<lparr>dep_name = n, dep_version = v, dep_type = t, dep_range = r\<rparr>)"
proof (induction es arbitrary: m)
  case Nil
  then show ?case by simp
next
  case (Cons e es)
  obtain k v where e: "e = (k, v)" by (cases e)
  from Cons.prems(1) obtain r where
    r: "parseVersionRange validRange v = Inr r"
    and rest: "extract_entries validRange t es
       (AList.update k \<lparr>dep_name = k, dep_version = v, dep_type = t, dep_range = r\<rparr> m) = Inr m'"
    by (auto simp: e split: sum.splits)
  note ih = Cons.IH [OF rest]
  show ?case
  proof (cases "map_of (rev es) n")
    case None
    with ih have "map_of m' n =
      map_of (AList.update k \<lparr>dep_name = k, dep_version = v, dep_type = t, dep_range = r\<rparr> m) n"
      by simp
    then show ?thesis
      unfolding e map_of_rev_Cons using None r by (auto simp: update_conv')
  next
    case (Some w)
    with ih show ?thesis
      unfolding e map_of_rev_Cons by simp
  qed
qed

lemma extract_types_distinct:
  "extract_types validRange pkg ts m = Inr m' \<Longrightarrow> distinct (map fst m) \<Longrightarrow>
   distinct (map fst m')"
proof (induction ts arbitrary: m)
  case Nil
  then show ?case by simp
next
  case (Cons t ts)
  from Cons.prems(1) obtain deps where g: "get_prop pkg t = Inr deps"
    by (auto split: sum.splits)
  show ?case
  proof (cases "section_entries deps")
    case None
    with Cons g show ?thesis by simp
  next
    case (Some es)
    with Cons.prems(1) g obtain m1 where
      m1: "extract_entries validRange t es m = Inr m1"
      and rest: "extract_types validRange pkg ts m1 = Inr m'"
      by (auto split: sum.splits)
    show ?thesis
      by (rule Cons.IH [OF rest]) (rule extract_entries_distinct [OF m1 Cons.prems(2)])
  qed
qed

lemma extract_types_step:
  assumes "extract_types validRange pkg (t # ts) m = Inr m'"
  obtains m1 where "extract_entries validRange t (section_of pkg t) m = Inr m1"
    and "extract_types validRange pkg ts m1 = Inr m'"
proof -
  from assms obtain deps where g: "get_prop pkg t = Inr deps"
    by (auto split: sum.splits)
  show ?thesis
  proof (cases "section_entries deps")
    case None
    with assms g have "extract_entries validRange t (section_of pkg t) m = Inr m"
      "extract_types validRange pkg ts m = Inr m'"
      by (simp_all add: section_of_def)
    then show ?thesis by (rule that)
  next
    case (Some es)
    with assms g obtain m1 where
      "extract_entries validRange t es m = Inr m1" "extract_types validRange pkg ts m1 = Inr m'"
      by (auto split: sum.splits)
    then show ?thesis
      using that g Some by (simp add: section_of_def)
  qed
qed

lemma extract_types_absent:
  "extract_types validRange pkg ts m = Inr m' \<Longrightarrow>
   \<forall>t \<in> set ts. n \<notin> fst ` set (section_of pkg t) \<Longrightarrow> map_of m' n = map_of m n"
proof (induction ts arbitrary: m)
  case Nil
  then show ?case by simp
next
  case (Cons t ts)
  from extract_types_step [OF Cons.prems(1)] obtain m1 where
    m1: "extract_entries validRange t (section_of pkg t) m = Inr m1"
    and rest: "extract_types validRange pkg ts m1 = Inr m'" by blast
  have "n \<notin> fst ` set (rev (section_of pkg t))" using Cons.prems(2) by simp
  then have "map_of (rev (section_of pkg t)) n = None"
    by (simp add: map_of_eq_None_iff)
  with extract_entries_lookup [OF m1, of n] have "map_of m1 n = map_of m n" by simp
  moreover have "map_of m' n = map_of m1 n"
    using Cons.IH [OF rest] Cons.prems(2) by simp
  ultimately show ?case by simp
qed

lemma extract_types_last:
  assumes "extract_types validRange pkg (before @ t # later) m = Inr m'"
    and "map_of (rev (section_of pkg t)) n = Some v"
    and "\<forall>t' \<in> set later. n \<notin> fst ` set (section_of pkg t')"
  shows "\<exists>r. parseVersionRange validRange v = Inr r \<and>
    map_of m' n = Some \<lparr>dep_name = n, dep_version = v, dep_type = t, dep_range = r\<rparr>"
  using assms(1)
proof (induction before arbitrary: m)
  case Nil
  then have "extract_types validRange pkg (t # later) m = Inr m'" by simp
  from extract_types_step [OF this] obtain m1 where
    m1: "extract_entries validRange t (section_of pkg t) m = Inr m1"
    and rest: "extract_types validRange pkg later m1 = Inr m'" by blast
  from extract_entries_lookup [OF m1, of n] assms(2) obtain r where
    "parseVersionRange validRange v = Inr r"
    "map_of m1 n = Some \<lparr>dep_name = n, dep_version = v, dep_type = t, dep_range = r\<rparr>"
    by auto
  then show ?case
    using extract_types_absent [OF rest assms(3)] by simp
next
  case (Cons b before)
  then have "extract_types validRange pkg (b # (before @ t # later)) m = Inr m'" by simp
  from extract_types_step [OF this] obtain m1 where
    "extract_types validRange pkg (before @ t # later) m1 = Inr m'" by blast
  then show ?case by (rule Cons.IH)
qed

lemma distinct_single_entry:
  "distinct (map fst xs) \<Longrightarrow> map_of xs k = Some v \<Longrightarrow>
   filter (\<lambda>p. fst p = k) xs = [(k, v)]"
proof (induction xs)
  case Nil
  then show ?case by simp
next
  case (Cons x xs)
  show ?case
  proof (cases "fst x = k")
    case True
    with Cons.prems have "k \<notin> fst ` set xs" by auto
    then have "\<forall>p \<in> set xs. fst p \<noteq> k" by force
    then have "filter (\<lambda>p. fst p = k) xs = []" by (simp add: filter_empty_conv)
    with True Cons.prems show ?thesis by (cases x) auto
  next
    case False
    with Cons show ?thesis by (cases x) auto
  qed
qed

lemma parse_caret_range:
  "parseVersionRange example_validRange (JStr ''^1.2.0'') = Inr caret_range"
  by (simp add: parseVersionRange_string clean_caret caret_range_def example_validRange_def)

lemma parse_lodash_range:
  "parseVersionRange example_validRange (JStr ''4.17.20'') = Inr lodash_range"
  by (simp add: parseVersionRange_string clean_4_17_20 lodash_range_def example_validRange_def)

lemma extract_two_section_manifest:
  "extractDependencies example_validRange two_section_manifest =
     Inr [(''lodash'',
           \<lparr>dep_name = ''lodash'', dep_version = JStr ''^1.2.0'', dep_type = ''devDependencies'',
            dep_range =
              \<lparr>original = JStr ''^1.2.0'', clean = None, valid = None,
               range' = Some ''>=1.2.0 <2.0.0-0'', isExact = False, isRange = True,
               major = None, minor = None, patch = None\<rparr>\<rparr>),
          (''axios'',
           \<lparr>dep_name = ''axios'', dep_version = JStr ''1.5.0'', dep_type = ''dependencies'',
            dep_range =
              \<lparr>original = JStr ''1.5.0'', clean = Some ''1.5.0'', valid = Some ''1.5.0'',
               range' = Some ''1.5.0'', isExact = True, isRange = False,
               major = Some 1, minor = Some 5, patch = Some 0\<rparr>\<rparr>)]"
  by code_simp

lemma two_section_lodash:
  "map_of (rev (section_of two_section_manifest ''devDependencies'')) ''lodash'' =
     Some (JStr ''^1.2.0'')"
  by code_simp

lemma two_section_later:
  "\<forall>t' \<in> set [''peerDependencies'', ''optionalDependencies''].
     ''lodash'' \<notin> fst ` set (section_of two_section_manifest t')"
  by code_simp

text \<open>
  Claim C9. When \<open>extractDependencies\<close> returns a map, the keys of the map are unique, and
  a name is bound exactly once, to the record built from the last of the sections
  \<open>dependencies\<close>, \<open>devDependencies\<close>, \<open>peerDependencies\<close>, \<open>optionalDependencies\<close> (in this
  order) that declares it: the record carries that section's name and the version the
  section gives (last write wins). The hypothesis names that section \<open>t\<close>; the name may
  occur in any of the sections before it.
\<close>

theorem extractDependencies_last_write:
  assumes "extractDependencies validRange packageJson = Inr deps"
    and "dependencyTypes = before @ t # later"
    and "map_of (rev (section_of packageJson t)) name = Some version"
    and "\<forall>t' \<in> set later. name \<notin> fst ` set (section_of packageJson t')"
  shows "distinct (map fst deps) \<and>
    (\<exists>r. parseVersionRange validRange version = Inr r \<and>
       filter (\<lambda>p. fst p = name) deps =
         [(name, \<lparr>dep_name = name, dep_version = version, dep_type = t, dep_range = r\<rparr>)])"
proof -
  have e: "extract_types validRange packageJson (before @ t # later) [] = Inr deps"
    using assms(1,2) by (simp add: extractDependencies_def)
  have d: "distinct (map fst deps)"
    using extract_types_distinct [OF e] by simp
  from extract_types_last [OF e assms(3,4)] obtain r where
    "parseVersionRange validRange version = Inr r"
    "map_of deps name = Some \<lparr>dep_name = name, dep_version = version, dep_type = t, dep_range = r\<rparr>"
    by blast
  then show ?thesis
    using d distinct_single_entry [OF d] by auto
qed

theorem extractDependencies_last_write_witness:
  "\<exists>deps. extractDependencies example_validRange two_section_manifest = Inr deps \<and>
     distinct (map fst deps) \<and>
     filter (\<lambda>p. fst p = ''lodash'') deps =
       [(''lodash'',
         \<lparr>dep_name = ''lodash'', dep_version = JStr ''^1.2.0'', dep_type = ''devDependencies'',
          dep_range = caret_range\<rparr>)]"
proof -
  have t: "dependencyTypes =
      [''dependencies''] @ ''devDependencies'' # [''peerDependencies'', ''optionalDependencies'']"
    by (simp add: dependencyTypes_def)
  from extractDependencies_last_write
    [OF extract_two_section_manifest t two_section_lodash two_section_later]
  show ?thesis
    by (auto simp: parse_caret_range extract_two_section_manifest caret_range_def)
qed

section \<open>Sorting with a comparison function\<close>

text \<open>
  The sort on a set \<open>A\<close> of elements on which the comparison function returns and is
  consistent: \<open>le a b\<close> says that the comparison of \<open>a\<close> with \<open>b\<close> is not positive.
\<close>

lemma insort_by_sorted:
  assumes cmp: "\<forall>a \<in> A. \<forall>b \<in> A. \<exists>k. cmp a b = Inr k \<and> (le a b \<longleftrightarrow> k \<le> 0)"
    and trans: "\<forall>a \<in> A. \<forall>b \<in> A. \<forall>d \<in> A. le a b \<and> le b d \<longrightarrow> le a d"
    and total: "\<forall>a \<in> A. \<forall>b \<in> A. le a b \<or> le b a"
    and x: "x \<in> A"
  shows "set ys \<subseteq> A \<Longrightarrow> sorted_wrt le ys \<Longrightarrow>
    \<exists>zs. insort_by cmp x ys = Inr zs \<and> mset zs = add_mset x (mset ys) \<and> sorted_wrt le zs"
proof (induction ys)
  case Nil
  then show ?case by simp
next
  case (Cons y ys)
  then have y: "y \<in> A" and ys: "set ys \<subseteq> A" and s: "sorted_wrt le ys"
    and yl: "\<forall>z \<in> set ys. le y z" by auto
  from cmp x y obtain k where k: "cmp x y = Inr k" "le x y \<longleftrightarrow> k \<le> 0" by blast
  show ?case
  proof (cases "k \<le> 0")
    case True
    then have xy: "le x y" using k by simp
    have "\<forall>z \<in> set ys. le x z"
    proof
      fix z assume z: "z \<in> set ys"
      then have "le y z" using yl by simp
      with xy trans x y z ys show "le x z" by blast
    qed
    then show ?thesis
      using True k xy Cons.prems(2) by simp
  next
    case False
    then have "\<not> le x y" using k by simp
    then have yx: "le y x" using total x y by blast
    from Cons.IH [OF ys s] obtain zs where
      zs: "insort_by cmp x ys = Inr zs" "mset zs = add_mset x (mset ys)" "sorted_wrt le zs"
      by blast
    have "set zs = insert x (set ys)"
      using zs(2) by (metis set_mset_add_mset_insert set_mset_mset)
    then have "\<forall>z \<in> set zs. le y z" using yx yl by simp
    then show ?thesis
      using False k zs by simp
  qed
qed

lemma js_sort_sorted:
  assumes cmp: "\<forall>a \<in> A. \<forall>b \<in> A. \<exists>k. cmp a b = Inr k \<and> (le a b \<longleftrightarrow> k \<le> 0)"
    and trans: "\<forall>a \<in> A. \<forall>b \<in> A. \<forall>d \<in> A. le a b \<and> le b d \<longrightarrow> le a d"
    and total: "\<forall>a \<in> A. \<forall>b \<in> A. le a b \<or> le b a"
  shows "set xs \<subseteq> A \<Longrightarrow>
    \<exists>zs. js_sort cmp xs = Inr zs \<and> mset zs = mset xs \<and> sorted_wrt le zs"
proof (induction xs)
  case Nil
  then show ?case by simp
next
  case (Cons x xs)
  then have x: "x \<in> A" and xs: "set xs \<subseteq> A" by auto
  from Cons.IH [OF xs] obtain ys where
    ys: "js_sort cmp xs = Inr ys" "mset ys = mset xs" "sorted_wrt le ys" by blast
  have "set ys \<subseteq> A"
    using ys(2) xs by (metis set_mset_mset)
  from insort_by_sorted [OF cmp trans total x this ys(3)] obtain zs where
    "insort_by cmp x ys = Inr zs" "mset zs = add_mset x (mset ys)" "sorted_wrt le zs" by blast
  then show ?case
    using ys by simp
qed

section \<open>The security classifier\<close>

lemma indexOf_ge_minus1: "- 1 \<le> indexOf xs x"
  by (induction xs) (auto simp: Let_def)

lemma indexOf_member: "0 \<le> indexOf xs x \<longleftrightarrow> x \<in> set xs"
  using indexOf_ge_minus1 [of _ x] by (induction xs) (auto simp: Let_def)

lemma severityLevels_cases:
  "s \<in> set severityLevels \<longleftrightarrow> s = ''low'' \<or> s = ''moderate'' \<or> s = ''high'' \<or> s = ''critical''"
  by (auto simp: severityLevels_def)

lemma toLowerCase_level: "s \<in> set severityLevels \<Longrightarrow> toLowerCase s = s"
  unfolding severityLevels_cases
  by (elim disjE; hypsubst) code_simp+

lemma severityOrder_level:
  "s \<in> set severityLevels \<Longrightarrow> severityOrder s = Some (3 - indexOf severityLevels s)"
  unfolding severityLevels_cases
  by (elim disjE; hypsubst) code_simp+

lemma audit_loop_findings:
  "\<exists>results. audit_loop (\<lambda>name. Inr (fs name)) i deps = Inr results \<and>
     map rv_vuln (allVulnerabilities results) =
       concat (map (\<lambda>(name, dep). filteredVulns i (fs name)) deps)"
proof (induction deps)
  case Nil
  then show ?case by (simp add: allVulnerabilities_def)
next
  case (Cons d deps)
  obtain name dep where d: "d = (name, dep)" by (cases d)
  from Cons obtain results where
    r: "audit_loop (\<lambda>name. Inr (fs name)) i deps = Inr results"
    "map rv_vuln (allVulnerabilities results) =
       concat (map (\<lambda>(name, dep). filteredVulns i (fs name)) deps)" by blast
  show ?case
  proof (cases "filteredVulns i (fs name) = []")
    case True
    then show ?thesis using r by (simp add: d)
  next
    case False
    then show ?thesis
      using r by (simp add: d Let_def allVulnerabilities_def comp_def)
  qed
qed

lemma audit_example:
  "performSecurityAudit (\<lambda>name. Inr (example_findings name)) [(''lodash'', lodash_dep)] ''high'' =
     Inr [\<lparr>ar_package = ''lodash'', ar_currentVersion = JStr ''4.17.20'',
           ar_dependencyType = ''dependencies'',
           ar_vulnerabilities = [finding ''B'' ''high'', finding ''C'' ''critical'']\<rparr>]"
  by code_simp

lemma audit_example_sorted:
  "sortedVulns
     (allVulnerabilities
        [\<lparr>ar_package = ''lodash'', ar_currentVersion = JStr ''4.17.20'',
          ar_dependencyType = ''dependencies'',
          ar_vulnerabilities = [finding ''B'' ''high'', finding ''C'' ''critical'']\<rparr>]) =
     Inr [\<lparr>rv_vuln = finding ''C'' ''critical'', rv_package = ''lodash'',
           rv_currentVersion = JStr ''4.17.20'', rv_dependencyType = ''dependencies''\<rparr>,
          \<lparr>rv_vuln = finding ''B'' ''high'', rv_package = ''lodash'',
           rv_currentVersion = JStr ''4.17.20'', rv_dependencyType = ''dependencies''\<rparr>]"
  by code_simp

text \<open>
  Claim C5. For every source of findings and every threshold among \<open>low\<close>, \<open>moderate\<close>,
  \<open>high\<close>, \<open>critical\<close>, the audit returns, and the findings of its report are, package by
  package and in their order, exactly the findings whose severity rank is at least the
  rank of the threshold (rank order low < moderate < high < critical); the printed list
  is a reordering of them, with every duplicate kept, from the highest severity to the
  lowest.
\<close>

theorem security_classifier:
  assumes "severityLevel \<in> set severityLevels"
  shows "\<exists>results sorted.
     performSecurityAudit (\<lambda>name. Inr (findings name)) dependencies severityLevel = Inr results \<and>
     map rv_vuln (allVulnerabilities results) =
       concat (map (\<lambda>(name, dep).
                      filter (\<lambda>v. indexOf severityLevels severityLevel \<le>
                                   indexOf severityLevels (severity v))
                             (findings name))
                   dependencies) \<and>
     sortedVulns (allVulnerabilities results) = Inr sorted \<and>
     mset sorted = mset (allVulnerabilities results) \<and>
     sorted_wrt (\<lambda>a b. indexOf severityLevels (severity (rv_vuln b)) \<le>
                         indexOf severityLevels (severity (rv_vuln a))) sorted"
proof -
  define i where "i = indexOf severityLevels severityLevel"
  define A where "A = {a :: reported_vulnerability. severity (rv_vuln a) \<in> set severityLevels}"
  define le where "le = (\<lambda>(a :: reported_vulnerability) (b :: reported_vulnerability). indexOf severityLevels (severity (rv_vuln b)) \<le>
                                 indexOf severityLevels (severity (rv_vuln a)))"
  define cmp where "cmp = (\<lambda>(a :: reported_vulnerability) (b :: reported_vulnerability). (Inr (case (severityOrder (severity (rv_vuln a)),
                                severityOrder (severity (rv_vuln b))) of
                            (Some x, Some y) \<Rightarrow> x - y
                          | _ \<Rightarrow> 0) :: error + int))"
  have i0: "0 \<le> i" using assms by (simp add: i_def indexOf_member)
  from audit_loop_findings [of findings i dependencies] obtain results where
    r: "audit_loop (\<lambda>name. Inr (findings name)) i dependencies = Inr results"
    and k: "map rv_vuln (allVulnerabilities results) =
       concat (map (\<lambda>(name, dep). filteredVulns i (findings name)) dependencies)" by blast
  have p: "performSecurityAudit (\<lambda>name. Inr (findings name)) dependencies severityLevel =
      Inr results"
    using r by (simp add: performSecurityAudit_def toLowerCase_level [OF assms] i_def)
  have inA: "set (allVulnerabilities results) \<subseteq> A"
  proof
    fix a assume "a \<in> set (allVulnerabilities results)"
    then have "rv_vuln a \<in> set (map rv_vuln (allVulnerabilities results))" by simp
    then have "i \<le> indexOf severityLevels (severity (rv_vuln a))"
      unfolding k by (auto simp: filteredVulns_def)
    with i0 have "0 \<le> indexOf severityLevels (severity (rv_vuln a))" by linarith
    then show "a \<in> A" by (simp add: A_def indexOf_member)
  qed
  have c: "\<forall>a \<in> A. \<forall>b \<in> A. \<exists>k. cmp a b = Inr k \<and> (le a b \<longleftrightarrow> k \<le> 0)"
    by (auto simp: A_def cmp_def le_def severityOrder_level)
  have t: "\<forall>a \<in> A. \<forall>b \<in> A. \<forall>d \<in> A. le a b \<and> le b d \<longrightarrow> le a d"
    by (auto simp: le_def)
  have o: "\<forall>a \<in> A. \<forall>b \<in> A. le a b \<or> le b a"
    by (auto simp: le_def)
  from js_sort_sorted [OF c t o inA] obtain sorted where
    s: "js_sort cmp (allVulnerabilities results) = Inr sorted"
    "mset sorted = mset (allVulnerabilities results)" "sorted_wrt le sorted" by blast
  have "sortedVulns (allVulnerabilities results) = Inr sorted"
    using s(1) by (simp add: sortedVulns_def cmp_def)
  then show ?thesis
    using p k s(2,3) by (auto simp: le_def filteredVulns_def i_def)
qed

theorem security_classifier_witness:
  "''high'' \<in> set severityLevels \<and>
   (\<exists>results sorted.
      performSecurityAudit (\<lambda>name. Inr (example_findings name)) [(''lodash'', lodash_dep)]
        ''high'' = Inr results \<and>
      map (\<lambda>a. vuln_id (rv_vuln a)) (allVulnerabilities results) = [''B'', ''C''] \<and>
      sortedVulns (allVulnerabilities results) = Inr sorted \<and>
      map (\<lambda>a. vuln_id (rv_vuln a)) sorted = [''C'', ''B''])"
proof -
  have h: "''high'' \<in> set severityLevels"
    by (simp add: severityLevels_def)
  from security_classifier [OF h, of example_findings "[(''lodash'', lodash_dep)]"]
  obtain results sorted where
    r: "performSecurityAudit (\<lambda>name. Inr (example_findings name)) [(''lodash'', lodash_dep)]
          ''high'' = Inr results"
    and s: "sortedVulns (allVulnerabilities results) = Inr sorted"
    by blast
  from r have r': "results =
      [\<lparr>ar_package = ''lodash'', ar_currentVersion = JStr ''4.17.20'',
        ar_dependencyType = ''dependencies'',
        ar_vulnerabilities = [finding ''B'' ''high'', finding ''C'' ''critical'']\<rparr>]"
    by (simp add: audit_example)
  from s have s': "sorted =
      [\<lparr>rv_vuln = finding ''C'' ''critical'', rv_package = ''lodash'',
        rv_currentVersion = JStr ''4.17.20'', rv_dependencyType = ''dependencies''\<rparr>,
       \<lparr>rv_vuln = finding ''B'' ''high'', rv_package = ''lodash'',
        rv_currentVersion = JStr ''4.17.20'', rv_dependencyType = ''dependencies''\<rparr>]"
    unfolding r' audit_example_sorted by simp
  have a: "map (\<lambda>a. vuln_id (rv_vuln a)) (allVulnerabilities results) = [''B'', ''C'']"
    by (simp add: r' allVulnerabilities_def finding_def)
  have b: "map (\<lambda>a. vuln_id (rv_vuln a)) sorted = [''C'', ''B'']"
    by (simp add: s' finding_def)
  show ?thesis
    by (rule conjI [OF h], rule exI [of _ results], rule exI [of _ sorted]) (simp only: r a s b)
qed

section \<open>The order of versions\<close>

lemma compareIdentifiers_num:
  "compareIdentifiers (IdNum a) (IdNum b) = cmp_of a b"
  by (simp add: compareIdentifiers_def cmp_of_def)

lemma ident_key_inj: "ident_key a = ident_key b \<longleftrightarrow> a = b"
  by (auto simp: ident_key_def split: ident.splits)

lemma compareIdentifiers_safe:
  "safe_ident a \<Longrightarrow> safe_ident b \<Longrightarrow>
   compareIdentifiers a b = cmp_of (ident_key a) (ident_key b)"
  by (cases a; cases b)
    (auto simp: compareIdentifiers_def cmp_of_def ident_key_def safe_ident_def Let_def)

lemma comparePre_loop_safe:
  "list_all safe_ident as \<Longrightarrow> list_all safe_ident bs \<Longrightarrow>
   comparePre_loop as bs = cmp_of (map ident_key as) (map ident_key bs)"
proof (induction as bs rule: comparePre_loop.induct)
  case 1
  then show ?case by (simp add: cmp_of_def)
next
  case (2 a as)
  then show ?case by (simp add: cmp_of_def)
next
  case (3 b bs)
  then show ?case by (simp add: cmp_of_def)
next
  case (4 a as b bs)
  show ?case
  proof (cases "a = b")
    case True
    with 4 show ?thesis by (simp add: cmp_of_def)
  next
    case False
    then have "ident_key a \<noteq> ident_key b" by (simp add: ident_key_inj)
    with 4 False show ?thesis
      by (simp add: compareIdentifiers_safe cmp_of_def)
  qed
qed

lemma compareMain_key:
  "compareMain x y =
     cmp_of (sv_major x, sv_minor x, sv_patch x) (sv_major y, sv_minor y, sv_patch y)"
  by (auto simp: compareMain_def compareIdentifiers_num cmp_of_def Let_def)

lemma comparePre_key:
  assumes "safe_semver x" and "safe_semver y"
  shows "comparePre x y =
     cmp_of ((if sv_prerelease x = [] then 1 else 0 :: nat), map ident_key (sv_prerelease x))
            ((if sv_prerelease y = [] then 1 else 0 :: nat), map ident_key (sv_prerelease y))"
proof (cases "sv_prerelease x = [] \<or> sv_prerelease y = []")
  case True
  then show ?thesis
    by (auto simp: comparePre_def cmp_of_def)
next
  case False
  then show ?thesis
    using comparePre_loop_safe [of "sv_prerelease x" "sv_prerelease y"] assms
    by (auto simp: comparePre_def cmp_of_def safe_semver_def)
qed

lemma cmp_of_pair:
  "cmp_of (a, b) (c, d) = (if cmp_of a c \<noteq> 0 then cmp_of a c else cmp_of b d)"
  by (auto simp: cmp_of_def less_prod_def)

lemma main_or_pre_key:
  assumes "safe_semver x" and "safe_semver y"
  shows "(let c = compareMain x y in if c \<noteq> 0 then c else comparePre x y) =
     cmp_of (sv_key x) (sv_key y)"
  unfolding Let_def compareMain_key comparePre_key [OF assms] sv_key_def cmp_of_pair [of "(sv_major x, sv_minor x, sv_patch x)"]
  by (rule refl)

lemma parsed_version_key:
  assumes "new_SemVer a = Inr x" and "new_SemVer b = Inr y" and "sv_version y = sv_version x"
  shows "sv_key x = sv_key y"
proof -
  have "Inr (x\<lparr>sv_build := []\<rparr>) = (Inr (y\<lparr>sv_build := []\<rparr>) :: error + semver)"
    using new_SemVer_roundtrip [OF assms(1)] new_SemVer_roundtrip [OF assms(2)] assms(3)
    by simp
  then have "x\<lparr>sv_build := []\<rparr> = y\<lparr>sv_build := []\<rparr>" by simp
  then have "sv_major x = sv_major y \<and> sv_minor x = sv_minor y \<and> sv_patch x = sv_patch y \<and>
      sv_prerelease x = sv_prerelease y"
    by (metis semver.select_convs(1-4) semver.surjective semver.update_convs(5))
  then show ?thesis by (simp add: sv_key_def)
qed

lemma sv_compare_key:
  assumes "new_SemVer a = Inr x" and "new_SemVer b = Inr y"
    and "safe_semver x" and "safe_semver y"
  shows "sv_compare x y = cmp_of (sv_key x) (sv_key y)"
proof (cases "sv_version y = sv_version x")
  case True
  then show ?thesis
    using parsed_version_key [OF assms(1,2)] by (simp add: sv_compare_def cmp_of_def)
next
  case False
  then show ?thesis
    using main_or_pre_key [OF assms(3,4)] by (simp add: sv_compare_def)
qed

lemma valid_parsed:
  "semver_valid (Some v) \<noteq> None \<longleftrightarrow> (\<exists>s. new_SemVer v = Inr s)"
  by (auto simp: semver_valid_def semver_parse_def split: sum.splits)

lemma semver_compare_key:
  assumes "semver_valid (Some a) \<noteq> None" and "semver_valid (Some b) \<noteq> None"
    and "safe_prerelease a" and "safe_prerelease b"
  shows "semver_compare a b = Inr (cmp_of (version_key a) (version_key b))"
proof -
  from assms(1,2) [unfolded valid_parsed]
  obtain x y where x: "new_SemVer a = Inr x" and y: "new_SemVer b = Inr y"
    by (elim exE)
  have "safe_semver x" "safe_semver y"
    using assms(3,4) x y by (simp_all add: safe_prerelease_def semver_parse_def)
  from sv_compare_key [OF x y this] show ?thesis
    using x y by (simp add: semver_compare_def version_key_def semver_parse_def)
qed

lemma cmp_of_le: "cmp_of a b \<le> 0 \<longleftrightarrow> a \<le> b"
  by (auto simp: cmp_of_def)

lemma cmp_of_ge: "0 \<le> cmp_of a b \<longleftrightarrow> b \<le> a"
  by (auto simp: cmp_of_def)

lemma cmp_of_gt: "0 < cmp_of a b \<longleftrightarrow> b < a"
  by (auto simp: cmp_of_def)

text \<open>The sorted versions of \<open>analyzeAvailableUpdates\<close>: the valid versions, newest first.\<close>

lemma sortedVersions:
  assumes "\<forall>v \<in> set allVersions. safe_prerelease v"
  shows "\<exists>zs. js_sort (\<lambda>a b. semver_compare b a)
            (filter (\<lambda>version. truthy (semver_valid (Some version))) allVersions) = Inr zs \<and>
     mset zs = mset (filter (\<lambda>v. semver_valid (Some v) \<noteq> None) allVersions) \<and>
     sorted_wrt (\<lambda>a b. version_key b \<le> version_key a) zs"
proof -
  define A where "A = {v. semver_valid (Some v) \<noteq> None \<and> safe_prerelease v}"
  have tr: "truthy (semver_valid (Some v)) \<longleftrightarrow> semver_valid (Some v) \<noteq> None" for v
  proof (cases "semver_parse (Some v)")
    case None
    then show ?thesis by (simp add: semver_valid_def truthy_def)
  next
    case (Some s)
    then have "new_SemVer v = Inr s" by (auto simp: semver_parse_def split: sum.splits)
    from sv_version_nonempty [OF this] Some show ?thesis
      by (simp add: semver_valid_def truthy_def)
  qed
  have c: "\<forall>a \<in> A. \<forall>b \<in> A. \<exists>k. semver_compare b a = Inr k \<and>
      (version_key b \<le> version_key a \<longleftrightarrow> k \<le> 0)"
    by (auto simp: A_def semver_compare_key cmp_of_le)
  have t: "\<forall>a \<in> A. \<forall>b \<in> A. \<forall>d \<in> A.
      version_key b \<le> version_key a \<and> version_key d \<le> version_key b \<longrightarrow>
      version_key d \<le> version_key a"
    by auto
  have o: "\<forall>a \<in> A. \<forall>b \<in> A. version_key b \<le> version_key a \<or> version_key a \<le> version_key b"
    by auto
  have s: "set (filter (\<lambda>v. semver_valid (Some v) \<noteq> None) allVersions) \<subseteq> A"
    using assms by (auto simp: A_def)
  from js_sort_sorted [of A "\<lambda>a b. semver_compare b a"
      "\<lambda>a b. version_key b \<le> version_key a", OF c t o s]
  show ?thesis
    by (simp add: tr)
qed

section \<open>The update recommender\<close>

text \<open>On valid versions the loop of \<open>analyzeAvailableUpdates\<close> returns: it keeps, in their
  order, the versions newer than the current one (without the major updates, unless they
  are requested), each with its classification.\<close>

lemma analyze_loop_valid:
  assumes cur: "new_SemVer currentVersion = Inr c"
  shows "\<forall>v \<in> set vs. semver_valid (Some v) \<noteq> None \<Longrightarrow>
    \<exists>updates. analyze_loop currentVersion includeMajor vs = Inr updates \<and>
      map upd_version updates =
        filter (\<lambda>v. semver_gt v currentVersion = Inr True \<and>
                    \<not> (update_getUpdateType (Some currentVersion) (Some v) = Major \<and>
                       \<not> includeMajor)) vs \<and>
      (\<forall>u \<in> set updates.
         upd_type u = update_getUpdateType (Some currentVersion) (Some (upd_version u)))"
proof (induction vs)
  case Nil
  then show ?case by simp
next
  case (Cons v vs)
  then obtain updates where
    u: "analyze_loop currentVersion includeMajor vs = Inr updates"
    "map upd_version updates =
        filter (\<lambda>v. semver_gt v currentVersion = Inr True \<and>
                    \<not> (update_getUpdateType (Some currentVersion) (Some v) = Major \<and>
                       \<not> includeMajor)) vs"
    "\<forall>u \<in> set updates.
         upd_type u = update_getUpdateType (Some currentVersion) (Some (upd_version u))"
    by auto
  from Cons.prems have "semver_valid (Some v) \<noteq> None" by simp
  then obtain x where x: "new_SemVer v = Inr x"
    unfolding valid_parsed by (elim exE)
  have g: "semver_gt v currentVersion = Inr (0 < sv_compare x c)"
    using x cur by (simp add: semver_gt_def semver_compare_def)
  show ?case
    using u by (auto simp: g Let_def)
qed

lemma generateRecommendations_parts:
  "generateRecommendations dep updates major_opt =
        (case filter (\<lambda>u. upd_type u = Patch) updates of
           [] \<Rightarrow> []
         | latestPatch # _ \<Rightarrow>
             [\<lparr>rec_type = Patch, rec_version = upd_version latestPatch, rec_priority = High,
               rec_reason = ''Safe bug fixes and improvements'', rec_breaking = False\<rparr>]) @
        (case filter (\<lambda>u. upd_type u = Minor) updates of
           [] \<Rightarrow> []
         | latestMinor # _ \<Rightarrow>
             [\<lparr>rec_type = Minor, rec_version = upd_version latestMinor, rec_priority = Medium,
               rec_reason = ''New features and improvements'', rec_breaking = False\<rparr>]) @
        (if major_opt then
           (case filter (\<lambda>u. upd_type u = Major) updates of
              [] \<Rightarrow> []
            | latestMajor # _ \<Rightarrow>
                [\<lparr>rec_type = Major, rec_version = upd_version latestMajor, rec_priority = Low,
                  rec_reason = ''Major version with potential breaking changes'',
                  rec_breaking = True\<rparr>])
         else [])"
  by (simp add: generateRecommendations_def)

lemma generateRecommendations_split:
  obtains A B C where "generateRecommendations dep updates major_opt = A @ B @ C"
    and "A = [] \<or> (\<exists>u us. filter (\<lambda>u. upd_type u = Patch) updates = u # us \<and>
        A = [\<lparr>rec_type = Patch, rec_version = upd_version u, rec_priority = High,
              rec_reason = ''Safe bug fixes and improvements'', rec_breaking = False\<rparr>])"
    and "B = [] \<or> (\<exists>u us. filter (\<lambda>u. upd_type u = Minor) updates = u # us \<and>
        B = [\<lparr>rec_type = Minor, rec_version = upd_version u, rec_priority = Medium,
              rec_reason = ''New features and improvements'', rec_breaking = False\<rparr>])"
    and "C = [] \<or> (major_opt \<and> (\<exists>u us. filter (\<lambda>u. upd_type u = Major) updates = u # us \<and>
        C = [\<lparr>rec_type = Major, rec_version = upd_version u, rec_priority = Low,
              rec_reason = ''Major version with potential breaking changes'',
              rec_breaking = True\<rparr>]))"
proof -
  define A where "A = (case filter (\<lambda>u. upd_type u = Patch) updates of
           [] \<Rightarrow> []
         | latestPatch # _ \<Rightarrow>
             [\<lparr>rec_type = Patch, rec_version = upd_version latestPatch, rec_priority = High,
               rec_reason = ''Safe bug fixes and improvements'', rec_breaking = False\<rparr>])"
  define B where "B = (case filter (\<lambda>u. upd_type u = Minor) updates of
           [] \<Rightarrow> []
         | latestMinor # _ \<Rightarrow>
             [\<lparr>rec_type = Minor, rec_version = upd_version latestMinor, rec_priority = Medium,
               rec_reason = ''New features and improvements'', rec_breaking = False\<rparr>])"
  define C where "C = (if major_opt then
           (case filter (\<lambda>u. upd_type u = Major) updates of
              [] \<Rightarrow> []
            | latestMajor # _ \<Rightarrow>
                [\<lparr>rec_type = Major, rec_version = upd_version latestMajor, rec_priority = Low,
                  rec_reason = ''Major version with potential breaking changes'',
                  rec_breaking = True\<rparr>])
         else [])"
  have g: "generateRecommendations dep updates major_opt = A @ B @ C"
    unfolding generateRecommendations_parts A_def B_def C_def by (rule refl)
  have a: "A = [] \<or> (\<exists>u us. filter (\<lambda>u. upd_type u = Patch) updates = u # us \<and>
        A = [\<lparr>rec_type = Patch, rec_version = upd_version u, rec_priority = High,
              rec_reason = ''Safe bug fixes and improvements'', rec_breaking = False\<rparr>])"
    by (cases "filter (\<lambda>u. upd_type u = Patch) updates") (simp_all add: A_def)
  have b: "B = [] \<or> (\<exists>u us. filter (\<lambda>u. upd_type u = Minor) updates = u # us \<and>
        B = [\<lparr>rec_type = Minor, rec_version = upd_version u, rec_priority = Medium,
              rec_reason = ''New features and improvements'', rec_breaking = False\<rparr>])"
    by (cases "filter (\<lambda>u. upd_type u = Minor) updates") (simp_all add: B_def)
  have c: "C = [] \<or> (major_opt \<and> (\<exists>u us. filter (\<lambda>u. upd_type u = Major) updates = u # us \<and>
        C = [\<lparr>rec_type = Major, rec_version = upd_version u, rec_priority = Low,
              rec_reason = ''Major version with potential breaking changes'',
              rec_breaking = True\<rparr>]))"
    by (cases "filter (\<lambda>u. upd_type u = Major) updates") (simp_all add: C_def)
  from g a b c show ?thesis by (rule that)
qed

lemma generateRecommendations_count:
  "length (generateRecommendations dep updates major_opt) \<le> 3 \<and>
   length (filter (\<lambda>r. rec_type r = t) (generateRecommendations dep updates major_opt)) \<le> 1"
proof -
  obtain A B C where g: "generateRecommendations dep updates major_opt = A @ B @ C"
    and a: "A = [] \<or> (\<exists>u us. filter (\<lambda>u. upd_type u = Patch) updates = u # us \<and>
        A = [\<lparr>rec_type = Patch, rec_version = upd_version u, rec_priority = High,
              rec_reason = ''Safe bug fixes and improvements'', rec_breaking = False\<rparr>])"
    and b: "B = [] \<or> (\<exists>u us. filter (\<lambda>u. upd_type u = Minor) updates = u # us \<and>
        B = [\<lparr>rec_type = Minor, rec_version = upd_version u, rec_priority = Medium,
              rec_reason = ''New features and improvements'', rec_breaking = False\<rparr>])"
    and c: "C = [] \<or> (major_opt \<and> (\<exists>u us. filter (\<lambda>u. upd_type u = Major) updates = u # us \<and>
        C = [\<lparr>rec_type = Major, rec_version = upd_version u, rec_priority = Low,
              rec_reason = ''Major version with potential breaking changes'',
              rec_breaking = True\<rparr>]))"
    by (rule generateRecommendations_split)
  have la: "length A \<le> 1 \<and> (t \<noteq> Patch \<longrightarrow> filter (\<lambda>r. rec_type r = t) A = [])"
    using a by auto
  have lb: "length B \<le> 1 \<and> (t \<noteq> Minor \<longrightarrow> filter (\<lambda>r. rec_type r = t) B = [])"
    using b by auto
  have lc: "length C \<le> 1 \<and> (t \<noteq> Major \<longrightarrow> filter (\<lambda>r. rec_type r = t) C = [])"
    using c by auto
  have fa: "length (filter (\<lambda>r. rec_type r = t) A) \<le> 1"
    using la le_trans [OF length_filter_le] by blast
  have fb: "length (filter (\<lambda>r. rec_type r = t) B) \<le> 1"
    using lb le_trans [OF length_filter_le] by blast
  have fc: "length (filter (\<lambda>r. rec_type r = t) C) \<le> 1"
    using lc le_trans [OF length_filter_le] by blast
  have "length (A @ B @ C) \<le> 3" using la lb lc by simp
  moreover have "length (filter (\<lambda>r. rec_type r = t) (A @ B @ C)) \<le> 1"
  proof (cases "t = Patch")
    case True
    then show ?thesis using fa lb lc by simp
  next
    case False
    then show ?thesis using la fb fc lb lc by (cases "t = Minor") simp_all
  qed
  ultimately show ?thesis unfolding g by (rule conjI)
qed

lemma generateRecommendations_shape:
  assumes "r \<in> set (generateRecommendations dep updates major_opt)"
  shows "rec_type r \<in> {Patch, Minor, Major}" and "rec_type r = Major \<longrightarrow> major_opt"
    and "rec_type r = Patch \<longrightarrow> rec_priority r = High"
    and "rec_type r = Minor \<longrightarrow> rec_priority r = Medium"
    and "rec_type r = Major \<longrightarrow> rec_priority r = Low"
    and "rec_breaking r \<longleftrightarrow> rec_type r = Major"
    and "\<exists>u us. filter (\<lambda>u. upd_type u = rec_type r) updates = u # us \<and>
           rec_version r = upd_version u"
proof -
  obtain A B C where g: "generateRecommendations dep updates major_opt = A @ B @ C"
    and a: "A = [] \<or> (\<exists>u us. filter (\<lambda>u. upd_type u = Patch) updates = u # us \<and>
        A = [\<lparr>rec_type = Patch, rec_version = upd_version u, rec_priority = High,
              rec_reason = ''Safe bug fixes and improvements'', rec_breaking = False\<rparr>])"
    and b: "B = [] \<or> (\<exists>u us. filter (\<lambda>u. upd_type u = Minor) updates = u # us \<and>
        B = [\<lparr>rec_type = Minor, rec_version = upd_version u, rec_priority = Medium,
              rec_reason = ''New features and improvements'', rec_breaking = False\<rparr>])"
    and c: "C = [] \<or> (major_opt \<and> (\<exists>u us. filter (\<lambda>u. upd_type u = Major) updates = u # us \<and>
        C = [\<lparr>rec_type = Major, rec_version = upd_version u, rec_priority = Low,
              rec_reason = ''Major version with potential breaking changes'',
              rec_breaking = True\<rparr>]))"
    by (rule generateRecommendations_split)
  from assms have "r \<in> set A \<or> r \<in> set B \<or> r \<in> set C"
    unfolding g by simp
  then have "rec_type r \<in> {Patch, Minor, Major} \<and> (rec_type r = Major \<longrightarrow> major_opt) \<and>
      (rec_type r = Patch \<longrightarrow> rec_priority r = High) \<and>
      (rec_type r = Minor \<longrightarrow> rec_priority r = Medium) \<and>
      (rec_type r = Major \<longrightarrow> rec_priority r = Low) \<and>
      (rec_breaking r \<longleftrightarrow> rec_type r = Major) \<and>
      (\<exists>u us. filter (\<lambda>u. upd_type u = rec_type r) updates = u # us \<and>
           rec_version r = upd_version u)"
    using a b c by (elim disjE) auto
  then show "rec_type r \<in> {Patch, Minor, Major}" and "rec_type r = Major \<longrightarrow> major_opt"
    and "rec_type r = Patch \<longrightarrow> rec_priority r = High"
    and "rec_type r = Minor \<longrightarrow> rec_priority r = Medium"
    and "rec_type r = Major \<longrightarrow> rec_priority r = Low"
    and "rec_breaking r \<longleftrightarrow> rec_type r = Major"
    and "\<exists>u us. filter (\<lambda>u. upd_type u = rec_type r) updates = u # us \<and>
           rec_version r = upd_version u"
    by simp_all
qed

lemma sorted_filter_head:
  assumes "sorted_wrt R zs" and "filter P zs = z # rest" and "w \<in> set zs" and "P w"
  shows "w = z \<or> R z w"
proof -
  have "sorted_wrt R (z # rest)"
    using sorted_wrt_filter [OF assms(1), of P] assms(2) by simp
  moreover have "w \<in> set (filter P zs)"
    using assms(3,4) by simp
  then have "w \<in> set (z # rest)"
    unfolding assms(2) .
  ultimately show ?thesis by auto
qed

lemma parse_range_clean:
  assumes "parseVersionRange validRange version = Inr rng" and "clean rng = Some cur"
  shows "\<exists>c. new_SemVer cur = Inr c" and "cur \<noteq> []"
proof -
  obtain s where s: "version = JStr s"
    using assms(1) parseVersionRange_not_string [of version validRange] by (cases version) auto
  from assms obtain x where x: "semver_parse (Some (trim_replace s)) = Some x"
    and c: "cur = sv_version x"
    unfolding s parseVersionRange_string by auto
  from semver_valid_version(1,5) [OF x] show "\<exists>c. new_SemVer cur = Inr c" "cur \<noteq> []"
    by (auto simp: c semver_valid_def semver_parse_def split: sum.splits option.splits)
qed

lemma gt_valid: "semver_gt v cur = Inr b \<Longrightarrow> semver_valid (Some v) \<noteq> None"
  by (auto simp: semver_gt_def semver_compare_def semver_valid_def semver_parse_def
      split: sum.splits)

lemma analyze_exact:
  assumes rng: "parseVersionRange validRange version = Inr rng"
    and cl: "clean rng = Some cur"
    and safe: "\<forall>v \<in> set allVersions. safe_prerelease v"
  shows "\<exists>updates zs.
     analyzeAvailableUpdates rng allVersions includeMajor = Inr updates \<and>
     mset zs = mset (filter (\<lambda>v. semver_valid (Some v) \<noteq> None) allVersions) \<and>
     sorted_wrt (\<lambda>a b. version_key b \<le> version_key a) zs \<and>
     map upd_version updates =
       filter (\<lambda>v. semver_gt v cur = Inr True \<and>
                   \<not> (update_getUpdateType (Some cur) (Some v) = Major \<and> \<not> includeMajor)) zs \<and>
     (\<forall>u \<in> set updates. upd_type u = update_getUpdateType (Some cur) (Some (upd_version u)))"
proof -
  from parse_range_clean [OF rng cl] obtain c where c: "new_SemVer cur = Inr c"
    and ne: "cur \<noteq> []" by blast
  from sortedVersions [OF safe] obtain zs where
    z: "js_sort (\<lambda>a b. semver_compare b a)
            (filter (\<lambda>version. truthy (semver_valid (Some version))) allVersions) = Inr zs"
    "mset zs = mset (filter (\<lambda>v. semver_valid (Some v) \<noteq> None) allVersions)"
    "sorted_wrt (\<lambda>a b. version_key b \<le> version_key a) zs" by blast
  have "set zs = set (filter (\<lambda>v. semver_valid (Some v) \<noteq> None) allVersions)"
    using z(2) by (rule mset_eq_setD)
  then have v: "\<forall>v \<in> set zs. semver_valid (Some v) \<noteq> None" by simp
  from analyze_loop_valid [OF c v, of includeMajor] obtain updates where
    u: "analyze_loop cur includeMajor zs = Inr updates"
    "map upd_version updates =
       filter (\<lambda>v. semver_gt v cur = Inr True \<and>
                   \<not> (update_getUpdateType (Some cur) (Some v) = Major \<and> \<not> includeMajor)) zs"
    "\<forall>u \<in> set updates. upd_type u = update_getUpdateType (Some cur) (Some (upd_version u))"
    by blast
  have "analyzeAvailableUpdates rng allVersions includeMajor = Inr updates"
    using cl ne z(1) u(1) by (simp add: analyzeAvailableUpdates_def)
  with z(2,3) u(2,3) show ?thesis by blast
qed

lemma analyze_not_exact:
  "clean rng = None \<Longrightarrow> analyzeAvailableUpdates rng allVersions includeMajor = Inr []"
  by (simp add: analyzeAvailableUpdates_def)

lemma filter_type_versions:
  assumes "\<forall>u \<in> set updates. upd_type u = T (upd_version u)"
  shows "map upd_version (filter (\<lambda>u. upd_type u = t) updates) =
         filter (\<lambda>v. T v = t) (map upd_version updates)"
  using assms by (induction updates) auto


lemma generateRecommendations_complete:
  assumes "filter (\<lambda>u. upd_type u = t) updates = u # us"
    and "t = Patch \<or> t = Minor \<or> (t = Major \<and> major_opt)"
  shows "\<exists>r \<in> set (generateRecommendations dep updates major_opt). rec_type r = t"
proof -
  define A where "A = (case filter (\<lambda>u. upd_type u = Patch) updates of
           [] \<Rightarrow> []
         | latestPatch # _ \<Rightarrow>
             [\<lparr>rec_type = Patch, rec_version = upd_version latestPatch, rec_priority = High,
               rec_reason = ''Safe bug fixes and improvements'', rec_breaking = False\<rparr>])"
  define B where "B = (case filter (\<lambda>u. upd_type u = Minor) updates of
           [] \<Rightarrow> []
         | latestMinor # _ \<Rightarrow>
             [\<lparr>rec_type = Minor, rec_version = upd_version latestMinor, rec_priority = Medium,
               rec_reason = ''New features and improvements'', rec_breaking = False\<rparr>])"
  define C where "C = (if major_opt then
           (case filter (\<lambda>u. upd_type u = Major) updates of
              [] \<Rightarrow> []
            | latestMajor # _ \<Rightarrow>
                [\<lparr>rec_type = Major, rec_version = upd_version latestMajor, rec_priority = Low,
                  rec_reason = ''Major version with potential breaking changes'',
                  rec_breaking = True\<rparr>])
         else [])"
  have g: "generateRecommendations dep updates major_opt = A @ B @ C"
    unfolding generateRecommendations_parts A_def B_def C_def by (rule refl)
  from assms(2) have "(\<exists>r \<in> set A. rec_type r = t) \<or> (\<exists>r \<in> set B. rec_type r = t) \<or>
      (\<exists>r \<in> set C. rec_type r = t)"
  proof (elim disjE conjE)
    assume t: "t = Patch"
    then have "A = [\<lparr>rec_type = Patch, rec_version = upd_version u, rec_priority = High,
               rec_reason = ''Safe bug fixes and improvements'', rec_breaking = False\<rparr>]"
      using assms(1) by (simp add: A_def)
    then show ?thesis by (simp add: t)
  next
    assume t: "t = Minor"
    then have "B = [\<lparr>rec_type = Minor, rec_version = upd_version u, rec_priority = Medium,
               rec_reason = ''New features and improvements'', rec_breaking = False\<rparr>]"
      using assms(1) by (simp add: B_def)
    then show ?thesis by (simp add: t)
  next
    assume t: "t = Major" and m: major_opt
    then have "C = [\<lparr>rec_type = Major, rec_version = upd_version u, rec_priority = Low,
                  rec_reason = ''Major version with potential breaking changes'',
                  rec_breaking = True\<rparr>]"
      using assms(1) by (simp add: C_def)
    then show ?thesis by (simp add: t)
  qed
  then show ?thesis unfolding g by auto
qed

lemma newest_in_bucket:
  assumes rng: "parseVersionRange validRange version = Inr rng"
    and cl: "clean rng = Some cur"
    and safe: "\<forall>v \<in> set allVersions. safe_prerelease v"
    and an: "analyzeAvailableUpdates rng allVersions major_opt = Inr updates"
  shows "\<forall>r \<in> set (generateRecommendations dep updates major_opt).
       rec_version r \<in> set allVersions \<and> semver_gt (rec_version r) cur = Inr True \<and>
       update_getUpdateType (Some cur) (Some (rec_version r)) = rec_type r \<and>
       (\<forall>v \<in> set allVersions.
          semver_gt v cur = Inr True \<and>
          update_getUpdateType (Some cur) (Some v) = rec_type r \<longrightarrow>
          (\<exists>k. semver_compare (rec_version r) v = Inr k \<and> 0 \<le> k))"
    and "\<forall>v \<in> set allVersions.
       semver_gt v cur = Inr True \<and>
       (update_getUpdateType (Some cur) (Some v) = Patch \<or>
        update_getUpdateType (Some cur) (Some v) = Minor \<or>
        (update_getUpdateType (Some cur) (Some v) = Major \<and> major_opt)) \<longrightarrow>
       (\<exists>r \<in> set (generateRecommendations dep updates major_opt).
          rec_type r = update_getUpdateType (Some cur) (Some v))"
proof -
  define T where "T = (\<lambda>v. update_getUpdateType (Some cur) (Some v))"
  define keep where "keep = (\<lambda>v. semver_gt v cur = Inr True \<and> \<not> (T v = Major \<and> \<not> major_opt))"
  from analyze_exact [OF rng cl safe, of major_opt] an obtain zs where
    m: "mset zs = mset (filter (\<lambda>v. semver_valid (Some v) \<noteq> None) allVersions)"
    and so: "sorted_wrt (\<lambda>a b. version_key b \<le> version_key a) zs"
    and ve: "map upd_version updates = filter keep zs"
    and ty: "\<forall>u \<in> set updates. upd_type u = T (upd_version u)"
    by (auto simp: T_def keep_def)
  have zs: "set zs = {v \<in> set allVersions. semver_valid (Some v) \<noteq> None}"
    using mset_eq_setD [OF m] by simp
  have bucket: "map upd_version (filter (\<lambda>u. upd_type u = t) updates) =
      filter (\<lambda>v. keep v \<and> T v = t) zs" for t
    unfolding filter_type_versions [OF ty] ve by simp
  show "\<forall>r \<in> set (generateRecommendations dep updates major_opt).
       rec_version r \<in> set allVersions \<and> semver_gt (rec_version r) cur = Inr True \<and>
       update_getUpdateType (Some cur) (Some (rec_version r)) = rec_type r \<and>
       (\<forall>v \<in> set allVersions.
          semver_gt v cur = Inr True \<and>
          update_getUpdateType (Some cur) (Some v) = rec_type r \<longrightarrow>
          (\<exists>k. semver_compare (rec_version r) v = Inr k \<and> 0 \<le> k))"
  proof
    fix r assume r: "r \<in> set (generateRecommendations dep updates major_opt)"
    from generateRecommendations_shape(7) [OF r] obtain u us where
      f: "filter (\<lambda>u. upd_type u = rec_type r) updates = u # us"
      and rv: "rec_version r = upd_version u" by blast
    have mj: "rec_type r = Major \<longrightarrow> major_opt"
      by (rule generateRecommendations_shape(2) [OF r])
    have hd: "filter (\<lambda>v. keep v \<and> T v = rec_type r) zs = rec_version r # map upd_version us"
      using bucket [of "rec_type r"] unfolding f rv by simp
    then have "rec_version r \<in> set (filter (\<lambda>v. keep v \<and> T v = rec_type r) zs)"
      by simp
    then have z: "rec_version r \<in> set zs" "keep (rec_version r)" "T (rec_version r) = rec_type r"
      by simp_all
    have zv: "semver_valid (Some (rec_version r)) \<noteq> None" "rec_version r \<in> set allVersions"
      using z(1) zs by simp_all
    have newest: "\<exists>k. semver_compare (rec_version r) v = Inr k \<and> 0 \<le> k"
      if v: "v \<in> set allVersions" "semver_gt v cur = Inr True" "T v = rec_type r" for v
    proof -
      have vv: "semver_valid (Some v) \<noteq> None" using gt_valid [OF v(2)] .
      then have "v \<in> set zs" using v(1) zs by simp
      moreover have "keep v \<and> T v = rec_type r"
        using v(2,3) mj by (simp add: keep_def)
      ultimately have "v = rec_version r \<or> version_key v \<le> version_key (rec_version r)"
        using sorted_filter_head [OF so hd, of v] by simp
      then have "version_key v \<le> version_key (rec_version r)" by auto
      then show ?thesis
        using semver_compare_key [OF zv(1) vv] safe zv(2) v(1) by (simp add: cmp_of_ge)
    qed
    show "rec_version r \<in> set allVersions \<and> semver_gt (rec_version r) cur = Inr True \<and>
       update_getUpdateType (Some cur) (Some (rec_version r)) = rec_type r \<and>
       (\<forall>v \<in> set allVersions.
          semver_gt v cur = Inr True \<and>
          update_getUpdateType (Some cur) (Some v) = rec_type r \<longrightarrow>
          (\<exists>k. semver_compare (rec_version r) v = Inr k \<and> 0 \<le> k))"
      using zv(2) z(2,3) newest by (simp add: keep_def T_def)
  qed
  show "\<forall>v \<in> set allVersions.
       semver_gt v cur = Inr True \<and>
       (update_getUpdateType (Some cur) (Some v) = Patch \<or>
        update_getUpdateType (Some cur) (Some v) = Minor \<or>
        (update_getUpdateType (Some cur) (Some v) = Major \<and> major_opt)) \<longrightarrow>
       (\<exists>r \<in> set (generateRecommendations dep updates major_opt).
          rec_type r = update_getUpdateType (Some cur) (Some v))"
  proof (intro ballI impI)
    fix v assume v: "v \<in> set allVersions"
      and h: "semver_gt v cur = Inr True \<and>
       (update_getUpdateType (Some cur) (Some v) = Patch \<or>
        update_getUpdateType (Some cur) (Some v) = Minor \<or>
        (update_getUpdateType (Some cur) (Some v) = Major \<and> major_opt))"
    then have b: "T v = Patch \<or> T v = Minor \<or> (T v = Major \<and> major_opt)"
      by (simp add: T_def)
    have "semver_valid (Some v) \<noteq> None" using h gt_valid by blast
    then have "v \<in> set zs" using v zs by simp
    moreover have "keep v" using h b by (auto simp: keep_def)
    ultimately have "filter (\<lambda>w. keep w \<and> T w = T v) zs \<noteq> []"
      by (auto simp: filter_empty_conv)
    then have "filter (\<lambda>u. upd_type u = T v) updates \<noteq> []"
      using bucket [of "T v"] by auto
    then obtain u us where "filter (\<lambda>u. upd_type u = T v) updates = u # us"
      by (cases "filter (\<lambda>u. upd_type u = T v) updates") auto
    from generateRecommendations_complete [OF this b]
    show "\<exists>r \<in> set (generateRecommendations dep updates major_opt).
          rec_type r = update_getUpdateType (Some cur) (Some v)"
      by (simp add: T_def)
  qed
qed

lemma update_one_fulfilled:
  "latest \<noteq> [] \<Longrightarrow>
   update_one dep (Fulfilled (Some latest)) (Fulfilled allVersions) major_opt =
     (case analyzeAvailableUpdates (dep_range dep) allVersions major_opt of
        Inl e \<Rightarrow> Inl e
      | Inr updates \<Rightarrow>
          Inr \<lparr>res_name = dep_name dep, res_currentVersion = dep_version dep,
               res_currentRange = dep_range dep, res_dependencyType = dep_type dep,
               res_latestVersion = Some latest, res_availableUpdates = updates,
               res_recommendations = generateRecommendations dep updates major_opt\<rparr>)"
  by (simp add: update_one_def truthy_def split: sum.splits)

lemma generateRecommendations_Nil: "generateRecommendations dep [] major_opt = []"
  by (simp add: generateRecommendations_def)

lemma parse_one_zero_range:
  "parseVersionRange example_validRange (JStr ''1.0.0'') = Inr one_zero_range"
  by code_simp

lemma lodash_versions_safe: "\<forall>v \<in> set lodash_versions. safe_prerelease v"
  by code_simp

lemma lodash_recommendations:
  "(case update_one lodash_dep (Fulfilled (Some ''5.0.0'')) (Fulfilled lodash_versions) False of
      Inl e \<Rightarrow> []
    | Inr result \<Rightarrow>
        map (\<lambda>r. (rec_type r, rec_version r, rec_priority r, rec_breaking r))
          (res_recommendations result)) =
   [(Patch, ''4.17.22'', High, False), (Minor, ''4.18.0'', Medium, False)]"
  by code_simp

text \<open>
  Where the comparison is an order, the recommender does what \<open>update.js\<close> announces
  (\<open>Sort versions in descending order\<close>, \<open>Recommend latest patch update\<close>). For every
  dependency whose range is the result of \<open>parseVersionRange\<close> and every list of published
  versions that are safe for the comparison (no all-digit prerelease identifier at or
  above \<open>MAX_SAFE_INTEGER\<close>), the update command computes at most 3 recommendations, at most one per bucket patch, minor, major; a major
  recommendation only when the include-major option is set; with priority high for patch,
  medium for minor and low for major, and \<open>breaking\<close> true exactly for major. Each
  recommendation carries a published version that is newer than the current one, is
  classified into the recommendation's bucket, and is not older than any other published
  version of that bucket; every bucket that has such a version (and is not a suppressed
  major bucket) gets its recommendation. When the current version has no exact resolution,
  there is no recommendation.
\<close>

lemma recommendations_safe:
  assumes "parseVersionRange validRange version = Inr (dep_range dep)"
    and "latest \<noteq> []"
    and "\<forall>v \<in> set allVersions. safe_prerelease v"
  shows "\<exists>result.
     update_one dep (Fulfilled (Some latest)) (Fulfilled allVersions) major_opt = Inr result \<and>
     res_recommendations result =
       generateRecommendations dep (res_availableUpdates result) major_opt \<and>
     length (res_recommendations result) \<le> 3 \<and>
     (\<forall>t. length (filter (\<lambda>r. rec_type r = t) (res_recommendations result)) \<le> 1) \<and>
     (\<forall>r \<in> set (res_recommendations result).
        rec_type r \<in> {Patch, Minor, Major} \<and>
        (rec_type r = Major \<longrightarrow> major_opt) \<and>
        (rec_type r = Patch \<longrightarrow> rec_priority r = High) \<and>
        (rec_type r = Minor \<longrightarrow> rec_priority r = Medium) \<and>
        (rec_type r = Major \<longrightarrow> rec_priority r = Low) \<and>
        (rec_breaking r \<longleftrightarrow> rec_type r = Major) \<and>
        (\<exists>cur. clean (dep_range dep) = Some cur \<and>
           rec_version r \<in> set allVersions \<and>
           semver_gt (rec_version r) cur = Inr True \<and>
           update_getUpdateType (Some cur) (Some (rec_version r)) = rec_type r \<and>
           (\<forall>v \<in> set allVersions.
              semver_gt v cur = Inr True \<and>
              update_getUpdateType (Some cur) (Some v) = rec_type r \<longrightarrow>
              (\<exists>k. semver_compare (rec_version r) v = Inr k \<and> 0 \<le> k)))) \<and>
     (\<forall>cur. clean (dep_range dep) = Some cur \<longrightarrow>
        (\<forall>v \<in> set allVersions.
           semver_gt v cur = Inr True \<and>
           (update_getUpdateType (Some cur) (Some v) = Patch \<or>
            update_getUpdateType (Some cur) (Some v) = Minor \<or>
            (update_getUpdateType (Some cur) (Some v) = Major \<and> major_opt)) \<longrightarrow>
           (\<exists>r \<in> set (res_recommendations result).
              rec_type r = update_getUpdateType (Some cur) (Some v)))) \<and>
     (clean (dep_range dep) = None \<longrightarrow> res_recommendations result = [])"
proof (cases "clean (dep_range dep)")
  case None
  then show ?thesis
    by (simp add: update_one_fulfilled [OF assms(2)] analyze_not_exact
        generateRecommendations_Nil)
next
  case (Some cur)
  from analyze_exact [OF assms(1) Some assms(3), of major_opt] obtain updates where
    an: "analyzeAvailableUpdates (dep_range dep) allVersions major_opt = Inr updates"
    by blast
  define recs where "recs = generateRecommendations dep updates major_opt"
  define result where "result =
     \<lparr>res_name = dep_name dep, res_currentVersion = dep_version dep,
      res_currentRange = dep_range dep, res_dependencyType = dep_type dep,
      res_latestVersion = Some latest, res_availableUpdates = updates,
      res_recommendations = recs\<rparr>"
  have u: "update_one dep (Fulfilled (Some latest)) (Fulfilled allVersions) major_opt = Inr result"
    by (simp add: update_one_fulfilled [OF assms(2)] an result_def recs_def)
  have sel: "res_recommendations result = recs" "res_availableUpdates result = updates"
    by (simp_all add: result_def)
  note nb = newest_in_bucket [OF assms(1) Some assms(3) an, of dep, folded recs_def]
  note cnt = generateRecommendations_count [of dep updates major_opt, folded recs_def]
  have sh: "rec_type r \<in> {Patch, Minor, Major} \<and>
        (rec_type r = Major \<longrightarrow> major_opt) \<and>
        (rec_type r = Patch \<longrightarrow> rec_priority r = High) \<and>
        (rec_type r = Minor \<longrightarrow> rec_priority r = Medium) \<and>
        (rec_type r = Major \<longrightarrow> rec_priority r = Low) \<and>
        (rec_breaking r \<longleftrightarrow> rec_type r = Major)" if "r \<in> set recs" for r
  proof -
    from that have m: "r \<in> set (generateRecommendations dep updates major_opt)"
      by (simp add: recs_def)
    note s = generateRecommendations_shape [OF m]
    from s(1) s(2) s(3) s(4) s(5) s(6) show ?thesis by (intro conjI)
  qed
  have big: "res_recommendations result =
       generateRecommendations dep (res_availableUpdates result) major_opt \<and>
     length (res_recommendations result) \<le> 3 \<and>
     (\<forall>t. length (filter (\<lambda>r. rec_type r = t) (res_recommendations result)) \<le> 1) \<and>
     (\<forall>r \<in> set (res_recommendations result).
        rec_type r \<in> {Patch, Minor, Major} \<and>
        (rec_type r = Major \<longrightarrow> major_opt) \<and>
        (rec_type r = Patch \<longrightarrow> rec_priority r = High) \<and>
        (rec_type r = Minor \<longrightarrow> rec_priority r = Medium) \<and>
        (rec_type r = Major \<longrightarrow> rec_priority r = Low) \<and>
        (rec_breaking r \<longleftrightarrow> rec_type r = Major) \<and>
        (\<exists>cur. clean (dep_range dep) = Some cur \<and>
           rec_version r \<in> set allVersions \<and>
           semver_gt (rec_version r) cur = Inr True \<and>
           update_getUpdateType (Some cur) (Some (rec_version r)) = rec_type r \<and>
           (\<forall>v \<in> set allVersions.
              semver_gt v cur = Inr True \<and>
              update_getUpdateType (Some cur) (Some v) = rec_type r \<longrightarrow>
              (\<exists>k. semver_compare (rec_version r) v = Inr k \<and> 0 \<le> k)))) \<and>
     (\<forall>cur. clean (dep_range dep) = Some cur \<longrightarrow>
        (\<forall>v \<in> set allVersions.
           semver_gt v cur = Inr True \<and>
           (update_getUpdateType (Some cur) (Some v) = Patch \<or>
            update_getUpdateType (Some cur) (Some v) = Minor \<or>
            (update_getUpdateType (Some cur) (Some v) = Major \<and> major_opt)) \<longrightarrow>
           (\<exists>r \<in> set (res_recommendations result).
              rec_type r = update_getUpdateType (Some cur) (Some v)))) \<and>
     (clean (dep_range dep) = None \<longrightarrow> res_recommendations result = [])"
    unfolding sel Some
  proof (intro conjI allI impI ballI)
    show "recs = generateRecommendations dep updates major_opt" by (rule recs_def)
    show "length recs \<le> 3" using cnt by simp
    show "length (filter (\<lambda>r. rec_type r = t) recs) \<le> 1" for t
      using generateRecommendations_count [of dep updates major_opt t] by (simp add: recs_def)
    show "rec_type r \<in> {Patch, Minor, Major}" if "r \<in> set recs" for r using sh [OF that] by simp
    show "major_opt" if "r \<in> set recs" "rec_type r = Major" for r using sh [OF that(1)] that(2) by simp
    show "rec_priority r = High" if "r \<in> set recs" "rec_type r = Patch" for r
      using sh [OF that(1)] that(2) by simp
    show "rec_priority r = Medium" if "r \<in> set recs" "rec_type r = Minor" for r
      using sh [OF that(1)] that(2) by simp
    show "rec_priority r = Low" if "r \<in> set recs" "rec_type r = Major" for r
      using sh [OF that(1)] that(2) by simp
    show "rec_breaking r = (rec_type r = Major)" if "r \<in> set recs" for r
      using sh [OF that] by simp
    show "\<exists>cur'. Some cur = Some cur' \<and>
           rec_version r \<in> set allVersions \<and>
           semver_gt (rec_version r) cur' = Inr True \<and>
           update_getUpdateType (Some cur') (Some (rec_version r)) = rec_type r \<and>
           (\<forall>v \<in> set allVersions.
              semver_gt v cur' = Inr True \<and>
              update_getUpdateType (Some cur') (Some v) = rec_type r \<longrightarrow>
              (\<exists>k. semver_compare (rec_version r) v = Inr k \<and> 0 \<le> k))"
      if "r \<in> set recs" for r
      using nb(1) that by (intro exI [of _ cur]) simp
    show "\<exists>r \<in> set recs. rec_type r = update_getUpdateType (Some cur') (Some v)"
      if "Some cur = Some cur'" "v \<in> set allVersions"
        "semver_gt v cur' = Inr True \<and>
           (update_getUpdateType (Some cur') (Some v) = Patch \<or>
            update_getUpdateType (Some cur') (Some v) = Minor \<or>
            (update_getUpdateType (Some cur') (Some v) = Major \<and> major_opt))" for cur' v
      using nb(2) that by simp
    show "recs = []" if "Some cur = None" using that by simp
  qed
  show ?thesis
    by (rule exI [of _ result]) (rule conjI [OF u big])
qed

lemma recommendations_safe_example:
  "parseVersionRange example_validRange (JStr ''4.17.20'') = Inr (dep_range lodash_dep) \<and>
   list_all safe_prerelease lodash_versions \<and>
   (\<exists>result.
      update_one lodash_dep (Fulfilled (Some ''5.0.0'')) (Fulfilled lodash_versions) False =
        Inr result \<and>
      length (res_recommendations result) \<le> 3 \<and>
      map (\<lambda>r. (rec_type r, rec_version r, rec_priority r, rec_breaking r))
        (res_recommendations result) =
      [(Patch, ''4.17.22'', High, False), (Minor, ''4.18.0'', Medium, False)])"
proof -
  have h1: "parseVersionRange example_validRange (JStr ''4.17.20'') = Inr (dep_range lodash_dep)"
    by (simp add: parse_lodash_range lodash_dep_def)
  have h2: "''5.0.0'' \<noteq> []" by simp
  from recommendations_safe [OF h1 h2 lodash_versions_safe, of False]
  obtain result where
    r: "update_one lodash_dep (Fulfilled (Some ''5.0.0'')) (Fulfilled lodash_versions) False =
        Inr result"
    and l: "length (res_recommendations result) \<le> 3"
    by (elim exE conjE)
  have m: "map (\<lambda>r. (rec_type r, rec_version r, rec_priority r, rec_breaking r))
        (res_recommendations result) =
      [(Patch, ''4.17.22'', High, False), (Minor, ''4.18.0'', Medium, False)]"
    using lodash_recommendations unfolding r by simp
  have h3: "list_all safe_prerelease lodash_versions"
    using lodash_versions_safe by (simp add: list_all_iff)
  show ?thesis
    by (rule conjI [OF h1], rule conjI [OF h3], rule exI [of _ result]) (simp only: r l m)
qed

text \<open>
  Claim C2. Each recommendation of the update command is to carry the newest published
  version of its bucket: \<open>analyzeAvailableUpdates\<close> sorts the versions in descending order and
  \<open>generateRecommendations\<close> takes the first update of each bucket as the latest one. The
  code does not do so on a list with prerelease identifiers that the library compares as
  doubles, and no guard keeps such versions out. With the current version 1.0.0 and the
  published versions \<open>1.0.1-9007199254740992.1\<close>, \<open>1.0.1-9007199254740993.2\<close>,
  \<open>1.0.1-9007199254740992.2\<close> (in this order), every comparison of neighbours yields 0, since
  9007199254740993 rounds to 9007199254740992; the sort finds the list in order and leaves
  it as it is, so the only recommendation, for the patch bucket, is the first version,
  although the third one is newer than the current version, is in the same bucket, and
  is newer than the first.
\<close>

theorem recommendations_not_newest:
  "parseVersionRange example_validRange (JStr ''1.0.0'') = Inr (dep_range one_zero_dep) \<and>
   update_one one_zero_dep (Fulfilled (Some ''1.0.1'')) (Fulfilled [pre_x, pre_y, pre_z]) False =
     Inr \<lparr>res_name = ''pkg'', res_currentVersion = JStr ''1.0.0'',
          res_currentRange = one_zero_range, res_dependencyType = ''dependencies'',
          res_latestVersion = Some ''1.0.1'',
          res_availableUpdates =
            [\<lparr>upd_version = pre_x, upd_type = Patch, upd_breaking = False,
              upd_semver = semver_parse (Some pre_x)\<rparr>,
             \<lparr>upd_version = pre_y, upd_type = Patch, upd_breaking = False,
              upd_semver = semver_parse (Some pre_y)\<rparr>,
             \<lparr>upd_version = pre_z, upd_type = Patch, upd_breaking = False,
              upd_semver = semver_parse (Some pre_z)\<rparr>],
          res_recommendations =
            [\<lparr>rec_type = Patch, rec_version = pre_x, rec_priority = High,
              rec_reason = ''Safe bug fixes and improvements'', rec_breaking = False\<rparr>]\<rparr> \<and>
   semver_compare pre_x pre_y = Inr 0 \<and>
   semver_compare pre_y pre_z = Inr 0 \<and>
   semver_gt pre_z ''1.0.0'' = Inr True \<and>
   update_getUpdateType (Some ''1.0.0'') (Some pre_z) = Patch \<and>
   semver_compare pre_x pre_z = Inr (- 1)"
  by code_simp

theorem recommendations_not_newest_witness:
  "(\<exists>result.
      update_one one_zero_dep (Fulfilled (Some ''1.0.1'')) (Fulfilled [pre_x, pre_y, pre_z]) False =
        Inr result \<and>
      map rec_version (res_recommendations result) = [pre_x]) \<and>
   semver_gt pre_z ''1.0.0'' = Inr True \<and>
   update_getUpdateType (Some ''1.0.0'') (Some pre_z) = Patch \<and>
   semver_compare pre_x pre_z = Inr (- 1)"
  using recommendations_not_newest by simp

end
